theory Spec2Isabelle
  imports Main "HOL-Library.Word"
begin

unbundle bit_operations_syntax

section \<open>Strongvelope: the chat message protocol handler\<close>

text \<open>
  A shallow embedding of the \<open>strongvelope\<close> module: the key identifier scheme, the
  parser of the binary TLV transport format, the \<open>ProtocolHandler\<close> object with its
  sender key rotation, and \<open>encryptTo\<close> / \<open>decryptFrom\<close>.

  Conventions of the embedding.
  \<^item> A binary string and a byte array are both a \<open>string\<close> (a list of 8-bit characters);
    \<open>asmCrypto.string_to_bytes\<close> and \<open>asmCrypto.bytes_to_string\<close> are the identity
    on them. Applied to \<open>undefined\<close>, \<open>string_to_bytes\<close> and \<open>base64urldecode\<close>
    read the length of their argument, which raises \<open>TypeError\<close>.
  \<^item> A JavaScript value that is a string, \<open>null\<close> or \<open>undefined\<close> is a
    \<open>string option\<close>; \<open>None\<close> stands for \<open>null\<close> in the key id fields of the
    handler and for \<open>undefined\<close> everywhere else.
  \<^item> An object used as a dictionary is a map. Reading a missing property gives
    \<open>undefined\<close>, so storing \<open>undefined\<close> under a property is modelled as removing
    it: the module only ever reads properties. Properties inherited from
    \<open>Object.prototype\<close> are not modelled.
  \<^item> A function returns a value, returns \<open>false\<close>, or throws: the type \<open>outcome\<close>.
    The calls of \<open>logger.error\<close> are collected in a list that is returned with the
    outcome.
  \<^item> The cryptographic library (asmCrypto, nacl), the base64 helpers and the UTF-8
    conversions are parameters, gathered in the record \<open>prims\<close>. The plain text of a
    message has the abstract type \<open>'t\<close>.
  \<^item> The clock \<open>Date.now()\<close>, the random number generator and the global key caches
    \<open>pubCu25519\<close> and \<open>pubEd25519\<close> are the record \<open>world\<close>.
\<close>

subsection \<open>Constants\<close>

abbreviation (input) NONCE_SIZE :: nat where "NONCE_SIZE \<equiv> 12"
abbreviation (input) KEY_SIZE :: nat where "KEY_SIZE \<equiv> 16"
abbreviation (input) IV_SIZE :: nat where "IV_SIZE \<equiv> 16"
abbreviation (input) ONE_DAY :: nat where "ONE_DAY \<equiv> 1000 * 24 * 60 * 60"
abbreviation (input) KEY_ID_SIZE :: nat where "KEY_ID_SIZE \<equiv> 4"
abbreviation (input) PROTOCOL_VERSION :: nat where "PROTOCOL_VERSION \<equiv> 0"
abbreviation (input) ROTATE_KEY_EVERY :: nat where "ROTATE_KEY_EVERY \<equiv> 16"
abbreviation (input) SEND_KEY_EVERY_RECEIVED :: nat where "SEND_KEY_EVERY_RECEIVED \<equiv> 24"
abbreviation (input) SECRET_KEY_SIZE :: nat where "SECRET_KEY_SIZE \<equiv> 16"

text \<open>\<open>TLV_TYPES\<close>: the record types of the transport container.\<close>

abbreviation (input) TLV_SIGNATURE :: nat where "TLV_SIGNATURE \<equiv> 1"
abbreviation (input) TLV_MESSAGE_TYPE :: nat where "TLV_MESSAGE_TYPE \<equiv> 2"
abbreviation (input) TLV_NONCE :: nat where "TLV_NONCE \<equiv> 3"
abbreviation (input) TLV_RECIPIENT :: nat where "TLV_RECIPIENT \<equiv> 4"
abbreviation (input) TLV_KEYS :: nat where "TLV_KEYS \<equiv> 5"
abbreviation (input) TLV_KEY_IDS :: nat where "TLV_KEY_IDS \<equiv> 6"
abbreviation (input) TLV_PAYLOAD :: nat where "TLV_PAYLOAD \<equiv> 7"

text \<open>\<open>MESSAGE_TYPES\<close>.\<close>

abbreviation (input) GROUP_KEYED :: nat where "GROUP_KEYED \<equiv> 0"
abbreviation (input) GROUP_FOLLOWUP :: nat where "GROUP_FOLLOWUP \<equiv> 1"
abbreviation (input) SIMPLE_TWO_PARTY :: nat where "SIMPLE_TWO_PARTY \<equiv> 2"

subsection \<open>JavaScript values\<close>

datatype jsnum = NaN | Num nat

datatype exn =
    TypeError
  | URIError
  | Error string
  | AssertionFailed string
  | MalformedRecord

datatype 'a outcome = Returned 'a | ReturnedFalse | Thrown exn

datatype logline =
    LogError string
  | LogKeyUnavailable string "string option"
    \<comment> \<open>\<open>'Encryption key for message from ' + sender + ' with ID '
        + base64urlencode(keyId) + ' unavailable.'\<close>, kept as its two arguments\<close>

definition truthy :: "string option \<Rightarrow> bool" where
  "truthy v = (case v of None \<Rightarrow> False | Some s \<Rightarrow> s \<noteq> [])"

definition str_of_null :: "string option \<Rightarrow> string" where
  "str_of_null v = (case v of None \<Rightarrow> ''null'' | Some s \<Rightarrow> s)"

definition str_of_undefined :: "string option \<Rightarrow> string" where
  "str_of_undefined v = (case v of None \<Rightarrow> ''undefined'' | Some s \<Rightarrow> s)"

definition nth_opt :: "'a list \<Rightarrow> nat \<Rightarrow> 'a option" where
  "nth_opt xs i = (if i < length xs then Some (xs ! i) else None)"

definition charCodeAt0 :: "string \<Rightarrow> jsnum" where
  "charCodeAt0 s = (case s of [] \<Rightarrow> NaN | c # _ \<Rightarrow> Num (of_char c))"

subsection \<open>The environment\<close>

record world =
  clock :: nat  \<comment> \<open>\<open>Date.now()\<close>, in milliseconds\<close>
  entropy :: "nat \<Rightarrow> char"  \<comment> \<open>the bytes \<open>asmCrypto.getRandomValues\<close> will deliver\<close>
  u_handle :: string
  u_privCu25519 :: string
  u_privEd25519 :: string
  cache_pubCu25519 :: "string \<rightharpoonup> string"  \<comment> \<open>the global \<open>pubCu25519\<close>\<close>
  cache_pubEd25519 :: "string \<rightharpoonup> string"  \<comment> \<open>the global \<open>pubEd25519\<close>\<close>

definition getRandomValues :: "nat \<Rightarrow> world \<Rightarrow> string \<times> world" where
  "getRandomValues n w = (map (entropy w) [0..<n], w\<lparr>entropy := (\<lambda>i. entropy w (i + n))\<rparr>)"

record 't prims =
  AES_CTR_encrypt :: "string \<Rightarrow> string \<Rightarrow> string \<Rightarrow> string"  \<comment> \<open>data, key, nonce\<close>
  AES_CTR_decrypt :: "string \<Rightarrow> string \<Rightarrow> string \<Rightarrow> string"
  AES_CBC_encrypt :: "string \<Rightarrow> string \<Rightarrow> string \<Rightarrow> string"  \<comment> \<open>data, key, iv; no padding\<close>
  AES_CBC_decrypt :: "string \<Rightarrow> string \<Rightarrow> string \<Rightarrow> string"
  SHA256 :: "string \<Rightarrow> string"
  scalarMult :: "string \<Rightarrow> string \<Rightarrow> string"
  sign_detached :: "string \<Rightarrow> string \<Rightarrow> string"  \<comment> \<open>message, secret key\<close>
  sign_detached_verify :: "string \<Rightarrow> string \<Rightarrow> string \<Rightarrow> bool"  \<comment> \<open>message, signature, public key\<close>
  getPubKeyFromPrivKey :: "string \<Rightarrow> string"
  base64urlencode :: "string \<Rightarrow> string"
  base64urldecode :: "string \<Rightarrow> string"
  utf8_encode :: "'t \<Rightarrow> string option"
    \<comment> \<open>\<open>unescape(encodeURIComponent(message))\<close>; \<open>None\<close> when it throws \<open>URIError\<close>\<close>
  utf8_decode :: "string \<Rightarrow> 't option"
    \<comment> \<open>\<open>decodeURIComponent(escape(bytes))\<close>; \<open>None\<close> when it throws \<open>URIError\<close>\<close>

subsection \<open>Key identifiers\<close>

text \<open>
  Modelled from the spec: \<open>str_to_a32\<close> and \<open>a32_to_str\<close> are not among the sources.
  The spec gives a KeyId as a 4-byte value \<open>(dayEpoch:16 bits) << 16 | (counter:16 bits)\<close>;
  the bytes are taken in big-endian order, a string shorter than four bytes counting as
  padded with zero bytes. Only the first 32-bit element of the array is used by the module.
\<close>

definition str_to_a32_first :: "string \<Rightarrow> 32 word" where
  "str_to_a32_first b =
     (let c = (\<lambda>i. if i < length b then of_char (b ! i) else 0)
      in push_bit 24 (c 0) OR push_bit 16 (c 1) OR push_bit 8 (c 2) OR c 3)"

text \<open>
  Modelled from the spec: \<open>a32_to_str\<close>, the inverse packing, writes a 32-bit element as
  its four bytes in big-endian order.
\<close>

definition a32_to_str :: "32 word \<Rightarrow> string" where
  "a32_to_str w = map (\<lambda>k. char_of (unat (drop_bit k w AND 255))) [24, 16, 8, 0]"

definition dateStampNow :: "world \<Rightarrow> nat" where
  "dateStampNow w = clock w div ONE_DAY"

definition splitKeyId :: "string \<Rightarrow> nat \<times> nat" where
  "splitKeyId keyId =
     (let keyIdNumber = str_to_a32_first keyId;
          dateStamp = drop_bit 16 keyIdNumber;
          counter = keyIdNumber AND 0xffff
      in (unat dateStamp, unat counter))"

definition encodeKeyId :: "nat \<Rightarrow> nat \<Rightarrow> string" where
  "encodeKeyId dateStamp counter =
     (let keyIdNumber = push_bit 16 (of_nat dateStamp) OR of_nat counter
      in a32_to_str keyIdNumber)"

subsection \<open>The TLV codec\<close>

text \<open>
  Modelled from the spec: \<open>tlvstore.toTlvRecord\<close> and \<open>tlvstore.splitSingleTlvRecord\<close>
  are not among the sources. The spec gives
  \<open>record := type:1 byte, length:2 bytes (big-endian), value:<length> bytes\<close>, and parsing
  fails on a truncated length or value. \<open>splitSingleTlvRecord\<close> returns the type byte and
  the value of the first record, and the rest of the input.
\<close>

definition toTlvRecord :: "string \<Rightarrow> string \<Rightarrow> string" where
  "toTlvRecord key v = key @ [char_of (length v div 256), char_of (length v mod 256)] @ v"

text \<open>
  Modelled from the spec: \<open>tlvstore.splitSingleTlvRecord\<close> reads one record of that
  layout; \<open>None\<close> stands for its failure on a truncated length or value.
\<close>

definition splitSingleTlvRecord :: "string \<Rightarrow> ((char \<times> string) \<times> string) option" where
  "splitSingleTlvRecord s =
     (case s of
        t # hi # lo # r \<Rightarrow>
          (let n = of_char hi * 256 + of_char lo
           in if length r < n then None else Some ((t, take n r), drop n r))
      | _ \<Rightarrow> None)"

lemma splitSingleTlvRecord_shorter:
  "splitSingleTlvRecord s = Some (rc, r) \<Longrightarrow> length r < length s"
  by (auto simp: splitSingleTlvRecord_def Let_def split: list.splits if_splits)

subsection \<open>Parsing a message\<close>

record parsedContent =
  recipients :: "string list"
  keys :: "string list"
  keyIds :: "string list"
  protocolVersion :: jsnum
  signature :: "string option"
  signedContent :: "string option"
  type :: "jsnum option"
  nonce :: "string option"
  payload :: "string option"
  undefined_property :: "string option"
    \<comment> \<open>\<open>parsedContent[undefined]\<close>, written for a type code outside \<open>_TLV_MAPPING\<close>\<close>

function splitKeyIds :: "string \<Rightarrow> string list" where
  "splitKeyIds ids =
     (if length ids > 0 then take KEY_ID_SIZE ids # splitKeyIds (drop KEY_ID_SIZE ids)
      else [])"
  by pat_completeness auto
termination
  by (relation "measure length") auto

declare splitKeyIds.simps [simp del]

text \<open>The body of the \<open>switch\<close> statement: what one record adds to the parsed content.\<close>

definition storeRecord :: "'t prims \<Rightarrow> parsedContent \<Rightarrow> nat \<Rightarrow> string \<Rightarrow> string \<Rightarrow> parsedContent" where
  "storeRecord P pc tlvType v rest =
     (if tlvType = TLV_SIGNATURE then pc\<lparr>signature := Some v, signedContent := Some rest\<rparr>
      else if tlvType = TLV_MESSAGE_TYPE then pc\<lparr>type := Some (charCodeAt0 v)\<rparr>
      else if tlvType = TLV_RECIPIENT then pc\<lparr>recipients := recipients pc @ [base64urlencode P v]\<rparr>
      else if tlvType = TLV_KEYS then pc\<lparr>keys := keys pc @ [v]\<rparr>
      else if tlvType = TLV_KEY_IDS then pc\<lparr>keyIds := keyIds pc @ splitKeyIds v\<rparr>
      else if tlvType = TLV_NONCE then pc\<lparr>nonce := Some v\<rparr>
      else if tlvType = TLV_PAYLOAD then pc\<lparr>payload := Some v\<rparr>
      else pc\<lparr>undefined_property := Some v\<rparr>)"

text \<open>The \<open>while\<close> loop of \<open>_parseMessageContent\<close>.\<close>

function parseRecords ::
  "'t prims \<Rightarrow> parsedContent \<Rightarrow> int \<Rightarrow> string \<Rightarrow> parsedContent outcome \<times> logline list" where
  "parseRecords P pc lastTlvType rest =
     (if length rest > 0 then
        (case splitSingleTlvRecord rest of
           None \<Rightarrow> (Thrown MalformedRecord, [])
         | Some ((t, v), rest') \<Rightarrow>
             (let tlvType = of_char t
              in if int tlvType < lastTlvType
                 then (ReturnedFalse, [LogError ''Received unexpected TLV type.''])
                 else parseRecords P (storeRecord P pc tlvType v rest') (int tlvType) rest'))
      else (Returned pc, []))"
  by pat_completeness auto
termination
  by (relation "measure (\<lambda>(P, pc, l, rest). length rest)")
     (auto dest: splitSingleTlvRecord_shorter)

declare parseRecords.simps [simp del]

definition parseMessageContent ::
  "'t prims \<Rightarrow> string \<Rightarrow> parsedContent outcome \<times> logline list" where
  "parseMessageContent P binaryMessage =
     (let parsedContent = \<lparr>recipients = [], keys = [], keyIds = [],
            protocolVersion = charCodeAt0 binaryMessage,
            signature = None, signedContent = None, type = None, nonce = None,
            payload = None, undefined_property = None\<rparr>;
          rest = drop 1 binaryMessage
      in case parseRecords P parsedContent (- 1) rest of
           (Returned pc, lg) \<Rightarrow>
             if length (recipients pc) > 0 \<and> length (recipients pc) \<noteq> length (keys pc)
             then (ReturnedFalse, [LogError ''Number of keys does not match number of recipients.''])
             else (Returned pc, lg)
         | other \<Rightarrow> other)"

subsection \<open>The protocol handler\<close>

record handler =
  ownHandle :: string
  privCu25519 :: string
  privEd25519 :: string
  pubEd25519 :: string
  rotateKeyEvery :: nat
  sendKeyEveryReceived :: nat
  keyEncryptionCount :: nat
  keyId :: "string option"
  previousKeyId :: "string option"
  sentKeyId :: "string option"
  participants :: "string list"
  participantKeys :: "string \<rightharpoonup> (string \<rightharpoonup> string)"

definition or_default :: "string option \<Rightarrow> string \<Rightarrow> string" where
  "or_default v d = (case v of None \<Rightarrow> d | Some s \<Rightarrow> if s = [] then d else s)"

text \<open>The constructor; an omitted argument is \<open>None\<close>.\<close>

definition ProtocolHandler ::
  "'t prims \<Rightarrow> world \<Rightarrow> string option \<Rightarrow> string option \<Rightarrow> string option \<Rightarrow> string option \<Rightarrow> handler" where
  "ProtocolHandler P w oh pc pe pb =
     (let own = or_default oh (u_handle w);
          privEd = or_default pe (u_privEd25519 w)
      in \<lparr>ownHandle = own,
          privCu25519 = or_default pc (u_privCu25519 w),
          privEd25519 = privEd,
          pubEd25519 = or_default pb (getPubKeyFromPrivKey P privEd),
          rotateKeyEvery = ROTATE_KEY_EVERY,
          sendKeyEveryReceived = SEND_KEY_EVERY_RECEIVED,
          keyEncryptionCount = 0,
          keyId = None,
          previousKeyId = None,
          sentKeyId = None,
          participants = [],
          participantKeys = [own \<mapsto> Map.empty]\<rparr>)"

text \<open>
  \<open>_updateSenderKey\<close>. The assignment to \<open>this.participantKeys[this.ownHandle][this.keyId]\<close>
  throws when the handler has no entry for its own handle; the key ids are already
  changed by then.
\<close>

definition updateSenderKey :: "world \<Rightarrow> handler \<Rightarrow> exn option \<times> world \<times> handler" where
  "updateSenderKey w h =
     (let (h1, dateStamp, counter) =
            (case keyId h of
               Some k \<Rightarrow>
                 if k \<noteq> [] then
                   (let (dateStamp, counter) = splitKeyId k;
                        newDateStamp = dateStampNow w
                    in if newDateStamp \<noteq> dateStamp
                       then (h\<lparr>previousKeyId := keyId h\<rparr>, newDateStamp, 0)
                       else (h\<lparr>previousKeyId := keyId h\<rparr>, dateStamp, (counter + 1) AND 0xffff))
                 else (h, dateStampNow w, 0)
             | None \<Rightarrow> (h, dateStampNow w, 0));
          newKeyId = encodeKeyId dateStamp counter;
          h2 = h1\<lparr>keyId := Some newKeyId\<rparr>;
          (secretKey, w') = getRandomValues SECRET_KEY_SIZE w
      in case participantKeys h2 (ownHandle h2) of
           None \<Rightarrow> (Some TypeError, w', h2)
         | Some own \<Rightarrow>
             (None, w',
              h2\<lparr>participantKeys := (participantKeys h2)(ownHandle h2 \<mapsto> own(newKeyId \<mapsto> secretKey)),
                 keyEncryptionCount := 0\<rparr>))"

subsection \<open>Symmetric encryption, signatures and key wrapping\<close>

text \<open>
  \<open>_symmetricEncryptMessage\<close> returns the cipher text, the key and the nonce used. A key or
  nonce that is omitted (or empty) is drawn from the random number generator.
\<close>

definition symmetricEncryptMessage ::
  "'t prims \<Rightarrow> world \<Rightarrow> 't \<Rightarrow> string option \<Rightarrow> string option
     \<Rightarrow> (string \<times> string \<times> string) outcome \<times> world" where
  "symmetricEncryptMessage P w message k n =
     (let (keyBytes, w1) =
            (case k of
               Some s \<Rightarrow> if s \<noteq> [] then (s, w) else getRandomValues KEY_SIZE w
             | None \<Rightarrow> getRandomValues KEY_SIZE w);
          (nonceBytes, w2) =
            (case n of
               Some s \<Rightarrow> if s \<noteq> [] then (take NONCE_SIZE s, w1) else getRandomValues NONCE_SIZE w1
             | None \<Rightarrow> getRandomValues NONCE_SIZE w1)
      in case utf8_encode P message of
           None \<Rightarrow> (Thrown URIError, w2)
         | Some clearBytes \<Rightarrow>
             (Returned (AES_CTR_encrypt P clearBytes keyBytes nonceBytes, keyBytes, nonceBytes), w2))"

text \<open>
  \<open>_symmetricDecryptMessage\<close> returns the clear text, or \<open>false\<close> when the decrypted
  bytes are not valid text.
\<close>

definition symmetricDecryptMessage ::
  "'t prims \<Rightarrow> string option \<Rightarrow> string option \<Rightarrow> string option \<Rightarrow> 't outcome \<times> logline list" where
  "symmetricDecryptMessage P cipher k n =
     (case k of
        None \<Rightarrow> (Thrown TypeError, [])
      | Some keyBytes \<Rightarrow>
          (case n of
             None \<Rightarrow> (Thrown TypeError, [])
           | Some n' \<Rightarrow>
               (case cipher of
                  None \<Rightarrow> (Thrown TypeError, [])
                | Some cipherBytes \<Rightarrow>
                    (case utf8_decode P (AES_CTR_decrypt P cipherBytes keyBytes (take NONCE_SIZE n')) of
                       None \<Rightarrow>
                         (ReturnedFalse,
                          [LogError ''Could not decrypt message, probably a wrong key/nonce.''])
                     | Some clearText \<Rightarrow> (Returned clearText, [])))))"

definition signMessage :: "'t prims \<Rightarrow> string \<Rightarrow> string \<Rightarrow> string \<Rightarrow> string" where
  "signMessage P message privKey pubKey = sign_detached P message (privKey @ pubKey)"

definition verifyMessage ::
  "'t prims \<Rightarrow> string option \<Rightarrow> string option \<Rightarrow> string option \<Rightarrow> bool outcome" where
  "verifyMessage P message sig pubKey =
     (case message of
        None \<Rightarrow> Thrown TypeError
      | Some messageBytes \<Rightarrow>
          (case sig of
             None \<Rightarrow> Thrown TypeError
           | Some signatureBytes \<Rightarrow>
               (case pubKey of
                  None \<Rightarrow> Thrown TypeError
                | Some keyBytes \<Rightarrow>
                    Returned (sign_detached_verify P messageBytes signatureBytes keyBytes))))"

definition computeSymmetricKey ::
  "'t prims \<Rightarrow> world \<Rightarrow> handler \<Rightarrow> string \<Rightarrow> string outcome \<times> logline list" where
  "computeSymmetricKey P w h userhandle =
     (let failure = (Thrown (Error ''No cached chat key for user!''),
                     [LogError (''No cached chat key for user: '' @ userhandle)])
      in case cache_pubCu25519 w userhandle of
           None \<Rightarrow> failure
         | Some pubKey \<Rightarrow>
             if pubKey = [] then failure
             else (Returned (SHA256 P (scalarMult P (privCu25519 h) pubKey)), []))"

text \<open>
  \<open>_encryptKeysFor\<close>. A key that is \<open>undefined\<close> is concatenated as the text
  \<open>undefined\<close>. The initialisation vector is computed before the key encryption key.
\<close>

definition encryptKeysFor ::
  "'t prims \<Rightarrow> world \<Rightarrow> handler \<Rightarrow> string option list \<Rightarrow> string \<Rightarrow> string
     \<Rightarrow> string outcome \<times> logline list" where
  "encryptKeysFor P w h ks n destination =
     (if \<not> length ks > 0 then (Thrown (AssertionFailed ''No keys to encrypt.''), [])
      else
        (let clearText = concat (map str_of_undefined ks);
             ivBytes = take IV_SIZE (SHA256 P (base64urldecode P destination @ n))
         in case computeSymmetricKey P w h destination of
              (Returned symKey, lg) \<Rightarrow>
                (Returned (AES_CBC_encrypt P clearText (take KEY_SIZE symKey) ivBytes), lg)
            | (ReturnedFalse, lg) \<Rightarrow> (ReturnedFalse, lg)
            | (Thrown e, lg) \<Rightarrow> (Thrown e, lg)))"

function splitKeys :: "string \<Rightarrow> string list" where
  "splitKeys clear =
     (if length clear > 0 then take KEY_SIZE clear # splitKeys (drop KEY_SIZE clear) else [])"
  by pat_completeness auto
termination
  by (relation "measure length") auto

declare splitKeys.simps [simp del]

text \<open>\<open>_decryptKeysFor\<close>; the nonce and the other party may be \<open>undefined\<close>.\<close>

definition decryptKeysFor ::
  "'t prims \<Rightarrow> world \<Rightarrow> handler \<Rightarrow> string \<Rightarrow> string option \<Rightarrow> string option \<Rightarrow> bool
     \<Rightarrow> string list outcome \<times> logline list" where
  "decryptKeysFor P w h encryptedKeys n otherParty iAmSender =
     (let receiver = (if iAmSender then otherParty else Some (ownHandle h))
      in case receiver of
           None \<Rightarrow> (Thrown TypeError, [])
         | Some r \<Rightarrow>
             (let ivBytes = take IV_SIZE (SHA256 P (base64urldecode P r @ str_of_undefined n))
              in case otherParty of
                   None \<Rightarrow> (Thrown TypeError, [])
                 | Some other \<Rightarrow>
                     (case computeSymmetricKey P w h other of
                        (Returned symKey, lg) \<Rightarrow>
                          (let clear = AES_CBC_decrypt P encryptedKeys (take KEY_SIZE symKey) ivBytes
                           in if length clear mod KEY_SIZE \<noteq> 0
                              then (Thrown (AssertionFailed ''Length mismatch for decoding sender keys.''), lg)
                              else (Returned (splitKeys clear), lg))
                      | (ReturnedFalse, lg) \<Rightarrow> (ReturnedFalse, lg)
                      | (Thrown e, lg) \<Rightarrow> (Thrown e, lg))))"

subsection \<open>Encrypting a message\<close>

text \<open>
  The second half of \<open>encryptTo\<close>: assembling the records, signing, and counting the
  message. \<open>encryptedKeys\<close> is \<open>undefined\<close> for a follow-up message; \<open>ids\<close> is the
  local variable \<open>keyIds\<close>. Writing a record whose value is \<open>null\<close> throws
  \<open>TypeError\<close>, since the record needs the length of its value.
\<close>

definition assembleMessage ::
  "'t prims \<Rightarrow> handler \<Rightarrow> string \<Rightarrow> nat \<Rightarrow> string \<Rightarrow> string \<Rightarrow> string option \<Rightarrow> string option
     \<Rightarrow> string outcome \<times> handler" where
  "assembleMessage P h destination messageType n ciphertext encryptedKeys ids =
     (let content = toTlvRecord [char_of TLV_MESSAGE_TYPE] [char_of messageType]
                    @ toTlvRecord [char_of TLV_NONCE] n;
          (content', h1) =
            (case encryptedKeys of
               Some ek \<Rightarrow>
                 if ek \<noteq> [] then
                   (let content1 = content
                          @ toTlvRecord [char_of TLV_RECIPIENT] (base64urldecode P destination)
                          @ toTlvRecord [char_of TLV_KEYS] ek;
                        h1 = h\<lparr>sentKeyId := keyId h\<rparr>
                    in (case ids of
                          None \<Rightarrow> (None, h1)
                        | Some v \<Rightarrow> (Some (content1 @ toTlvRecord [char_of TLV_KEY_IDS] v), h1)))
                 else (case keyId h of
                         None \<Rightarrow> (None, h)
                       | Some v \<Rightarrow> (Some (content @ toTlvRecord [char_of TLV_KEY_IDS] v), h))
             | None \<Rightarrow>
                 (case keyId h of
                    None \<Rightarrow> (None, h)
                  | Some v \<Rightarrow> (Some (content @ toTlvRecord [char_of TLV_KEY_IDS] v), h)))
      in case content' of
           None \<Rightarrow> (Thrown TypeError, h1)
         | Some content2 \<Rightarrow>
             (let content3 = content2 @ toTlvRecord [char_of TLV_PAYLOAD] ciphertext;
                  sig = signMessage P content3 (privEd25519 h1) (pubEd25519 h1);
                  content4 = toTlvRecord [char_of TLV_SIGNATURE] sig @ content3
              in (Returned (char_of PROTOCOL_VERSION # content4),
                  h1\<lparr>keyEncryptionCount := keyEncryptionCount h1 + 1\<rparr>)))"

text \<open>The first step of \<open>encryptTo\<close>, under the comment \<open>Check and rotate key if due\<close>.\<close>

definition rotateKeyIfDue :: "world \<Rightarrow> handler \<Rightarrow> exn option \<times> world \<times> handler" where
  "rotateKeyIfDue w h =
     (if keyEncryptionCount h \<ge> rotateKeyEvery h then updateSenderKey w h else (None, w, h))"

text \<open>
  \<open>encryptTo\<close>: the rotation of the sender key when it is due, the encryption of the
  payload, and the choice between a follow-up and a keyed message.
\<close>

definition encryptTo ::
  "'t prims \<Rightarrow> world \<Rightarrow> 't \<Rightarrow> string \<Rightarrow> handler
     \<Rightarrow> string outcome \<times> world \<times> handler \<times> logline list" where
  "encryptTo P w message destination h =
     (case rotateKeyIfDue w h of
        (Some e, w1, h1) \<Rightarrow> (Thrown e, w1, h1, [])
      | (None, w1, h1) \<Rightarrow>
          (case participantKeys h1 (ownHandle h1) of
             None \<Rightarrow> (Thrown TypeError, w1, h1, [])
           | Some own \<Rightarrow>
               (let senderKey = own (str_of_null (keyId h1))
                in case symmetricEncryptMessage P w1 message senderKey None of
                     (Thrown e, w2) \<Rightarrow> (Thrown e, w2, h1, [])
                   | (ReturnedFalse, w2) \<Rightarrow> (ReturnedFalse, w2, h1, [])
                   | (Returned (ciphertext, usedKey, usedNonce), w2) \<Rightarrow>
                       if sentKeyId h1 = keyId h1 then
                         (let (r, h2) = assembleMessage P h1 destination GROUP_FOLLOWUP usedNonce
                                          ciphertext None (keyId h1)
                          in (r, w2, h2, []))
                       else
                         (let (keysIncluded, ids) =
                                (case previousKeyId h1 of
                                   Some p \<Rightarrow>
                                     if p \<noteq> [] then ([senderKey, own p], Some (str_of_null (keyId h1) @ p))
                                     else ([senderKey], keyId h1)
                                 | None \<Rightarrow> ([senderKey], keyId h1))
                          in case encryptKeysFor P w2 h1 keysIncluded usedNonce destination of
                               (Thrown e, lg) \<Rightarrow> (Thrown e, w2, h1, lg)
                             | (ReturnedFalse, lg) \<Rightarrow> (ReturnedFalse, w2, h1, lg)
                             | (Returned encryptedKeys, lg) \<Rightarrow>
                                 (let (r, h2) = assembleMessage P h1 destination GROUP_KEYED usedNonce
                                                  ciphertext (Some encryptedKeys) ids
                                  in (r, w2, h2, lg))))))"

subsection \<open>Decrypting a message\<close>

record 't StrongvelopeMessage =
  msg_sender :: string
  msg_type :: "jsnum option"
  msg_payload :: 't

text \<open>
  The \<open>for\<close> loop of \<open>decryptFrom\<close> that updates the sender key cache, on the object
  \<open>this.participantKeys[sender]\<close>. It returns \<open>False\<close> when it bails out on a
  mismatch; the entries already written stay.
\<close>

function cacheSenderKeys ::
  "string list \<Rightarrow> string list \<Rightarrow> nat \<Rightarrow> (string \<rightharpoonup> string) \<Rightarrow> bool \<times> (string \<rightharpoonup> string)" where
  "cacheSenderKeys ids decryptedKeys i cache =
     (if i < length decryptedKeys then
        (let ident = str_of_undefined (nth_opt ids i);
             previousSenderKey = cache ident
         in if truthy previousSenderKey \<and> previousSenderKey \<noteq> Some (decryptedKeys ! i)
            then (False, cache)
            else cacheSenderKeys ids decryptedKeys (i + 1) (cache(ident \<mapsto> decryptedKeys ! i)))
      else (True, cache))"
  by pat_completeness auto
termination
  by (relation "measure (\<lambda>(ids, decryptedKeys, i, cache). length decryptedKeys - i)") auto

declare cacheSenderKeys.simps [simp del]

text \<open>
  The part of \<open>decryptFrom\<close> under the comment \<open>Get sender key\<close>: the sender key of the
  message, unwrapped from its KEYS record and cached, or looked up in the cache.
\<close>

definition getSenderKey ::
  "'t prims \<Rightarrow> world \<Rightarrow> parsedContent \<Rightarrow> string \<Rightarrow> handler
     \<Rightarrow> string option outcome \<times> handler \<times> logline list" where
  "getSenderKey P w parsedMessage sender h =
     (let kid = nth_opt (keyIds parsedMessage) 0
      in case keys parsedMessage of
           key0 # _ \<Rightarrow>
             (let isOwnMessage = (sender = ownHandle h);
                  otherHandle = (if isOwnMessage then nth_opt (recipients parsedMessage) 0
                                 else Some sender)
              in case decryptKeysFor P w h key0 (nonce parsedMessage) otherHandle isOwnMessage of
                   (Thrown e, lg) \<Rightarrow> (Thrown e, h, lg)
                 | (ReturnedFalse, lg) \<Rightarrow> (ReturnedFalse, h, lg)
                 | (Returned decryptedKeys, lg) \<Rightarrow>
                     (let senderKey = nth_opt decryptedKeys 0;
                          cache = (case participantKeys h sender of
                                     None \<Rightarrow> Map.empty
                                   | Some c \<Rightarrow> c)
                      in case cacheSenderKeys (keyIds parsedMessage) decryptedKeys 0 cache of
                           (False, cache') \<Rightarrow>
                             (ReturnedFalse,
                              h\<lparr>participantKeys := (participantKeys h)(sender \<mapsto> cache')\<rparr>,
                              lg @ [LogError ''Mismatching statement on sender's previous key.''])
                         | (True, cache') \<Rightarrow>
                             (Returned senderKey,
                              h\<lparr>participantKeys := (participantKeys h)
                                   (sender \<mapsto> cache'((str_of_undefined kid) := senderKey))\<rparr>,
                              lg)))
         | [] \<Rightarrow>
             (case participantKeys h sender of
                None \<Rightarrow> (ReturnedFalse, h, [LogKeyUnavailable sender kid])
              | Some cache \<Rightarrow>
                  if truthy (cache (str_of_undefined kid))
                  then (Returned (cache (str_of_undefined kid)), h, [])
                  else (ReturnedFalse, h, [LogKeyUnavailable sender kid])))"

text \<open>The part under the comment \<open>Decrypt message payload\<close>, and the result object.\<close>

definition decryptPayload ::
  "'t prims \<Rightarrow> parsedContent \<Rightarrow> string \<Rightarrow> string option
     \<Rightarrow> 't StrongvelopeMessage outcome \<times> logline list" where
  "decryptPayload P parsedMessage sender senderKey =
     (case symmetricDecryptMessage P (payload parsedMessage) senderKey (nonce parsedMessage) of
        (Thrown e, lg) \<Rightarrow> (Thrown e, lg)
      | (ReturnedFalse, lg) \<Rightarrow> (ReturnedFalse, lg)
      | (Returned cleartext, lg) \<Rightarrow>
          (Returned \<lparr>msg_sender = sender, msg_type = type parsedMessage,
                     msg_payload = cleartext\<rparr>, lg))"

definition decryptFrom ::
  "'t prims \<Rightarrow> world \<Rightarrow> string \<Rightarrow> string \<Rightarrow> handler
     \<Rightarrow> 't StrongvelopeMessage outcome \<times> handler \<times> logline list" where
  "decryptFrom P w message sender h =
     (case parseMessageContent P message of
        (Thrown e, lg) \<Rightarrow> (Thrown e, h, lg)
      | (ReturnedFalse, lg) \<Rightarrow> (ReturnedFalse, h, lg @ [LogError ''Incoming message not usable.''])
      | (Returned parsedMessage, lg) \<Rightarrow>
          if protocolVersion parsedMessage \<noteq> Num PROTOCOL_VERSION
          then (ReturnedFalse, h,
                lg @ [LogError ''Message not compatible with current protocol version.''])
          else
            (case verifyMessage P (signedContent parsedMessage) (signature parsedMessage)
                    (cache_pubEd25519 w sender) of
               Thrown e \<Rightarrow> (Thrown e, h, lg)
             | ReturnedFalse \<Rightarrow> (ReturnedFalse, h, lg @ [LogError ''Message signature invalid.''])
             | Returned verified \<Rightarrow>
                 if \<not> verified
                 then (ReturnedFalse, h, lg @ [LogError ''Message signature invalid.''])
                 else
                   (case getSenderKey P w parsedMessage sender h of
                      (Thrown e, h', lg1) \<Rightarrow> (Thrown e, h', lg @ lg1)
                    | (ReturnedFalse, h', lg1) \<Rightarrow> (ReturnedFalse, h', lg @ lg1)
                    | (Returned senderKey, h', lg1) \<Rightarrow>
                        (case decryptPayload P parsedMessage sender senderKey of
                           (r, lg2) \<Rightarrow> (r, h', lg @ lg1 @ lg2)))))"

subsection \<open>The key id derivation in the words of the spec\<close>


text \<open>The day and counter of the handler's current key, if it has one.\<close>

definition currentKeyId :: "handler \<Rightarrow> (nat \<times> nat) option" where
  "currentKeyId h =
     (case keyId h of None \<Rightarrow> None | Some k \<Rightarrow> if k = [] then None else Some (splitKeyId k))"

subsection \<open>Example data\<close>

text \<open>
  Stand-ins for the cryptographic primitives, on which the definitions can be evaluated:
  the ciphers are the identity, every signature is the text \<open>sig\<close>.
\<close>

definition toy :: "string prims" where
  "toy = \<lparr>AES_CTR_encrypt = (\<lambda>d k n. d), AES_CTR_decrypt = (\<lambda>d k n. d),
          AES_CBC_encrypt = (\<lambda>d k iv. d), AES_CBC_decrypt = (\<lambda>d k iv. d),
          SHA256 = (\<lambda>s. s), scalarMult = (\<lambda>a b. []),
          sign_detached = (\<lambda>m k. ''sig''), sign_detached_verify = (\<lambda>m s k. s = ''sig''),
          getPubKeyFromPrivKey = (\<lambda>k. k),
          base64urlencode = (\<lambda>s. s), base64urldecode = (\<lambda>s. s),
          utf8_encode = Some, utf8_decode = Some\<rparr>"

definition world0 :: world where
  "world0 = \<lparr>clock = 24930 * 86400000 + 5, entropy = (\<lambda>i. CHR ''k''), u_handle = ''me'',
     u_privCu25519 = ''c'', u_privEd25519 = ''e'',
     cache_pubCu25519 = [''A'' \<mapsto> ''pa'', ''B'' \<mapsto> ''pb''],
     cache_pubEd25519 = [''A'' \<mapsto> ''ea'', ''B'' \<mapsto> ''eb'']\<rparr>"

text \<open>A handler for the user \<open>A\<close> that holds a sender key under the key id \<open>abcd\<close>.\<close>

definition alice :: handler where
  "alice = (ProtocolHandler toy world0 (Some ''A'') (Some ''ca'') (Some ''sa'') (Some ''ea''))
     \<lparr>keyId := Some ''abcd'', participantKeys := [''A'' \<mapsto> [''abcd'' \<mapsto> ''0123456789abcdef'']]\<rparr>"

subsection \<open>Wire messages as record lists\<close>

text \<open>The byte string of a sequence of records, each a type byte with its value.\<close>

definition encodeRecords :: "(char \<times> string) list \<Rightarrow> string" where
  "encodeRecords rs = concat (map (\<lambda>(t, v). toTlvRecord [t] v) rs)"

text \<open>The type codes of the records of a message, in order.\<close>

definition typeCodes :: "(char \<times> string) list \<Rightarrow> nat list" where
  "typeCodes rs = map (\<lambda>(t, v). of_char t) rs"

text \<open>A handler for the user \<open>B\<close>, freshly constructed.\<close>

definition bob :: handler where
  "bob = ProtocolHandler toy world0 (Some ''B'') (Some ''cb'') (Some ''sb'') (Some ''eb'')"

text \<open>
  A keyed message from \<open>A\<close> to \<open>B\<close> as \<open>alice\<close> builds it: it carries the sender key
  of \<open>alice\<close> under the key id \<open>abcd\<close>.
\<close>

definition keyedMessage :: string where
  "keyedMessage = char_of PROTOCOL_VERSION # encodeRecords
     [(char_of TLV_SIGNATURE, ''sig''), (char_of TLV_MESSAGE_TYPE, [char_of GROUP_KEYED]),
      (char_of TLV_NONCE, ''kkkkkkkkkkkk''), (char_of TLV_RECIPIENT, ''B''),
      (char_of TLV_KEYS, ''0123456789abcdef''), (char_of TLV_KEY_IDS, ''abcd''),
      (char_of TLV_PAYLOAD, ''hello'')]"

text \<open>The sender key bound to a participant and key id in the handler's key store.\<close>

definition boundKey :: "handler \<Rightarrow> string \<Rightarrow> string \<Rightarrow> string option" where
  "boundKey h p k = (case participantKeys h p of None \<Rightarrow> None | Some c \<Rightarrow> c k)"

text \<open>\<open>bob\<close> after he has received \<open>keyedMessage\<close>.\<close>

definition bob1 :: handler where
  "bob1 = bob\<lparr>participantKeys := (participantKeys bob)(''A'' \<mapsto> [''abcd'' \<mapsto> ''0123456789abcdef''])\<rparr>"

text \<open>
  A signed message from \<open>A\<close> with two keys: a new one under the key id \<open>abce\<close>, and one
  under \<open>abcd\<close> that differs from the key \<open>bob1\<close> holds under that id.
\<close>

definition conflictingMessage :: string where
  "conflictingMessage = char_of PROTOCOL_VERSION # encodeRecords
     [(char_of TLV_SIGNATURE, ''sig''), (char_of TLV_MESSAGE_TYPE, [char_of GROUP_KEYED]),
      (char_of TLV_NONCE, ''kkkkkkkkkkkk''), (char_of TLV_RECIPIENT, ''B''),
      (char_of TLV_KEYS, ''fedcba9876543210XXXXXXXXXXXXXXXX''), (char_of TLV_KEY_IDS, ''abceabcd''),
      (char_of TLV_PAYLOAD, ''hello'')]"

text \<open>A signed message from \<open>A\<close> whose KEYS record is empty.\<close>

definition emptyKeysMessage :: string where
  "emptyKeysMessage = char_of PROTOCOL_VERSION # encodeRecords
     [(char_of TLV_SIGNATURE, ''sig''), (char_of TLV_MESSAGE_TYPE, [char_of GROUP_KEYED]),
      (char_of TLV_NONCE, ''kkkkkkkkkkkk''), (char_of TLV_KEYS, ''''),
      (char_of TLV_KEY_IDS, ''abcd''), (char_of TLV_PAYLOAD, ''hello'')]"

text \<open>A keyed message from \<open>A\<close> that gives another key under the key id \<open>abcd\<close>.\<close>

definition rekeyMessage :: string where
  "rekeyMessage = char_of PROTOCOL_VERSION # encodeRecords
     [(char_of TLV_SIGNATURE, ''sig''), (char_of TLV_MESSAGE_TYPE, [char_of GROUP_KEYED]),
      (char_of TLV_NONCE, ''kkkkkkkkkkkk''), (char_of TLV_RECIPIENT, ''B''),
      (char_of TLV_KEYS, ''XXXXXXXXXXXXXXXX''), (char_of TLV_KEY_IDS, ''abcd''),
      (char_of TLV_PAYLOAD, ''hello'')]"

text \<open>
  A message as \<open>encryptTo\<close> assembles it from its records: the version byte, the
  SIGNATURE record with the signature of the handler over the other records, and the
  other records.
\<close>

definition signedMessage :: "'t prims \<Rightarrow> handler \<Rightarrow> (char \<times> string) list \<Rightarrow> string" where
  "signedMessage P h rs =
     char_of PROTOCOL_VERSION
       # encodeRecords ((char_of TLV_SIGNATURE,
                         signMessage P (encodeRecords rs) (privEd25519 h) (pubEd25519 h)) # rs)"

text \<open>A freshly constructed handler for the user \<open>A\<close>.\<close>

definition fresh :: handler where
  "fresh = ProtocolHandler toy world0 (Some ''A'') (Some ''ca'') (Some ''sa'') (Some ''ea'')"

text \<open>
  A sequence of \<open>encryptTo\<close> calls on one handler that all return a message. A call is
  the time at which it is made, the plain text and the destination.
\<close>

fun encryptAll ::
  "'t prims \<Rightarrow> (nat \<times> 't \<times> string) list \<Rightarrow> world \<Rightarrow> handler
     \<Rightarrow> (string list \<times> world \<times> handler) option" where
  "encryptAll P [] w h = Some ([], w, h)"
| "encryptAll P ((t, message, destination) # calls) w h =
     (case encryptTo P (w\<lparr>clock := t\<rparr>) message destination h of
        (Returned msg, w', h', lg) \<Rightarrow>
          (case encryptAll P calls w' h' of
             Some (msgs, w'', h'') \<Rightarrow> Some (msg # msgs, w'', h'')
           | None \<Rightarrow> None)
      | (ReturnedFalse, w', h', lg) \<Rightarrow> None
      | (Thrown e, w', h', lg) \<Rightarrow> None)"

text \<open>
  The scenario of the spec: the handler \<open>alice\<close> with a rotation threshold of 2; it
  has not sent its key yet.
\<close>

definition alice2 :: handler where
  "alice2 = alice\<lparr>rotateKeyEvery := 2\<rparr>"

subsection \<open>Valid key material\<close>

text \<open>
  What the round trip asks of the primitives: decryption inverts encryption, the key
  wrapping cipher (CBC without padding) keeps the length of its input, and a signature
  fits a record.
\<close>

definition sound_primitives :: "'t prims \<Rightarrow> bool" where
  "sound_primitives P =
     ((\<forall>x k n. AES_CTR_decrypt P (AES_CTR_encrypt P x k n) k n = x)
      \<and> (\<forall>x k iv. AES_CBC_decrypt P (AES_CBC_encrypt P x k iv) k iv = x)
      \<and> (\<forall>x k iv. length (AES_CBC_encrypt P x k iv) = length x)
      \<and> (\<forall>m k. length (sign_detached P m k) < 65536))"

text \<open>
  A handler that holds a current sender key: it has an entry for its own handle, a
  4-byte current key id bound to a 16-byte key there, and a previous key id, if any, that
  is likewise bound.
\<close>

definition holds_sender_key :: "handler \<Rightarrow> bool" where
  "holds_sender_key h =
     (case participantKeys h (ownHandle h) of
        None \<Rightarrow> False
      | Some own \<Rightarrow>
          (case keyId h of
             None \<Rightarrow> False
           | Some k \<Rightarrow> length k = 4 \<and> (case own k of None \<Rightarrow> False | Some key \<Rightarrow> length key = 16))
          \<and> (case previousKeyId h of
               None \<Rightarrow> True
             | Some p \<Rightarrow>
                 p = [] \<or> (length p = 4 \<and> (case own p of None \<Rightarrow> False | Some kp \<Rightarrow> length kp = 16))))"

text \<open>The handler as \<open>encryptTo\<close> uses it: with its sender key rotated if that is due.\<close>

definition afterRotation :: "world \<Rightarrow> handler \<Rightarrow> handler" where
  "afterRotation w h = snd (snd (rotateKeyIfDue w h))"

text \<open>
  \<open>alice2\<close> once she has sent her sender key in a first message, and the follow-up
  message she then builds for the text \<open>world\<close>.
\<close>

definition aliceSent :: handler where
  "aliceSent = alice2\<lparr>sentKeyId := Some ''abcd'', keyEncryptionCount := 1\<rparr>"

definition followupMessage :: string where
  "followupMessage = char_of PROTOCOL_VERSION # encodeRecords
     [(char_of TLV_SIGNATURE, ''sig''), (char_of TLV_MESSAGE_TYPE, [char_of GROUP_FOLLOWUP]),
      (char_of TLV_NONCE, ''kkkkkkkkkkkk''), (char_of TLV_KEY_IDS, ''abcd''),
      (char_of TLV_PAYLOAD, ''world'')]"




text \<open>
  The writes of the \<open>for\<close> loop of \<open>decryptFrom\<close> for the first \<open>n\<close> keys of a message:
  \<open>this.participantKeys[sender][id] = parsedMessage.keys[0][i]\<close> for \<open>i\<close> from 0 up to
  \<open>n - 1\<close>.
\<close>

definition writeSenderKeys ::
  "string list \<Rightarrow> string list \<Rightarrow> nat \<Rightarrow> (string \<rightharpoonup> string) \<Rightarrow> (string \<rightharpoonup> string)" where
  "writeSenderKeys ids decryptedKeys n cache =
     fold (\<lambda>i c. c(str_of_undefined (nth_opt ids i) \<mapsto> decryptedKeys ! i)) [0..<n] cache"

section \<open>Verification\<close>

subsection \<open>Key identifiers\<close>

lemma bit_nat_lt: "(d::nat) < 2 ^ k \<Longrightarrow> bit d n \<Longrightarrow> n < k"
proof (rule ccontr)
  assume a: "d < 2 ^ k" "bit d n" "\<not> n < k"
  then have "(2::nat) ^ k \<le> 2 ^ n" by simp
  with a have "d < 2 ^ n" by linarith
  with a show False by (simp add: bit_iff_odd)
qed

lemma bit_lt_65536: "(d::nat) < 65536 \<Longrightarrow> bit d n \<Longrightarrow> n < 16"
  using bit_nat_lt[of d 16 n] by simp

lemma shift_or_high:
  "d < 65536 \<Longrightarrow> c < 65536 \<Longrightarrow>
   drop_bit 16 (push_bit 16 (of_nat d) OR of_nat c :: 32 word) = of_nat d"
  by (rule bit_word_eqI) (auto simp: bit_simps dest: bit_lt_65536)

lemma mask16_word: "(0xffff :: 32 word) = mask 16"
  by (simp add: mask_eq_decr_exp)

lemma shift_or_low:
  "d < 65536 \<Longrightarrow> c < 65536 \<Longrightarrow>
   (push_bit 16 (of_nat d) OR of_nat c :: 32 word) AND 0xffff = of_nat c"
  unfolding mask16_word
  by (rule bit_word_eqI) (auto simp: bit_simps dest: bit_lt_65536)

lemma mask8_word: "(255 :: 32 word) = mask 8"
  by (simp add: mask_eq_decr_exp)

lemma byte_of_char_of: "(of_char (char_of (unat (x AND 255 :: 32 word))) :: 32 word) = x AND 255"
proof -
  have "unat (x AND 255) \<le> unat (255 :: 32 word)"
    by (rule word_and_le1 [THEN word_le_nat_alt [THEN iffD1]])
  then have lt: "unat (x AND 255) < 256" by simp
  have "(of_char (char_of (unat (x AND 255))) :: 32 word) = of_nat (of_char (char_of (unat (x AND 255))))"
    by (simp only: of_nat_of_char)
  also have "\<dots> = of_nat (unat (x AND 255))" using lt by (simp only: of_char_of mod_less)
  finally show ?thesis by simp
qed

lemma bit_byte:
  "bit (of_char (char_of (unat (drop_bit k w AND 255 :: 32 word))) :: 32 word) n = (n < 8 \<and> bit w (k + n))"
  unfolding byte_of_char_of unfolding mask8_word by (auto simp: bit_simps ac_simps)

text \<open>Reading back the four bytes of a 32-bit number gives the number.\<close>

lemma str_to_a32_first_a32_to_str: "str_to_a32_first (a32_to_str w) = w"
proof (rule bit_word_eqI)
  fix n assume "n < LENGTH(32)"
  then have n: "n < 32" by simp
  have "bit (str_to_a32_first (a32_to_str w)) n =
     (24 \<le> n \<and> n - 24 < 8 \<and> bit w (24 + (n - 24)) \<or> 16 \<le> n \<and> n - 16 < 8 \<and> bit w (16 + (n - 16))
      \<or> 8 \<le> n \<and> n - 8 < 8 \<and> bit w (8 + (n - 8)) \<or> n < 8 \<and> bit w n)"
    unfolding str_to_a32_first_def a32_to_str_def Let_def
    using n by (simp add: bit_or_iff bit_push_bit_iff bit_byte bit_byte[of 0, simplified] bit_drop_bit_eq)
  also have "\<dots> = bit w n"
  proof -
    consider "n < 8" | "8 \<le> n" "n < 16" | "16 \<le> n" "n < 24" | "24 \<le> n" "n < 32"
      using n by linarith
    then show ?thesis by cases auto
  qed
  finally show "bit (str_to_a32_first (a32_to_str w)) n = bit w n" .
qed

lemma splitKeyId_encodeKeyId:
  assumes "d < 65536" "c < 65536"
  shows "splitKeyId (encodeKeyId d c) = (d, c)"
proof -
  have d: "unat (word_of_nat d :: 32 word) = d" using assms by (simp add: unat_of_nat)
  have c: "unat (word_of_nat c :: 32 word) = c" using assms by (simp add: unat_of_nat)
  show ?thesis
    unfolding splitKeyId_def encodeKeyId_def Let_def str_to_a32_first_a32_to_str
      shift_or_high[OF assms] shift_or_low[OF assms] d c ..
qed

lemma length_encodeKeyId: "length (encodeKeyId d c) = 4"
  by (simp add: encodeKeyId_def a32_to_str_def)

lemma splitKeyId_snd_bound: "snd (splitKeyId k) < 65536"
proof -
  have "unat (str_to_a32_first k AND 0xffff) \<le> unat (0xffff :: 32 word)"
    by (rule word_and_le1 [THEN word_le_nat_alt [THEN iffD1]])
  then show ?thesis by (simp add: splitKeyId_def Let_def)
qed

lemma and_ffff_nat: "(n::nat) AND 0xffff = n mod 65536"
proof -
  have "(0xffff::nat) = mask 16" by (simp add: mask_eq_exp_minus_1)
  then have "n AND 0xffff = take_bit 16 n" by (simp only: take_bit_eq_mask)
  then show ?thesis by (simp add: take_bit_eq_mod)
qed

lemma splitKeyId_abcd: "splitKeyId ''abcd'' = (24930, 25444)"
  by (simp add: splitKeyId_def str_to_a32_first_def)

lemma updateSenderKey_keyId:
  "keyId (snd (snd (updateSenderKey w h))) =
     Some (case currentKeyId h of
             None \<Rightarrow> encodeKeyId (dateStampNow w) 0
           | Some (d, c) \<Rightarrow> if dateStampNow w \<noteq> d then encodeKeyId (dateStampNow w) 0
                            else encodeKeyId d ((c + 1) AND 0xffff))"
  by (auto simp: updateSenderKey_def currentKeyId_def Let_def split: option.splits prod.splits)






subsection \<open>The parser\<close>

lemma length_decode:
  "n < 65536 \<Longrightarrow> of_char (char_of (n div 256)) * 256 + of_char (char_of n) = (n::nat)"
  by (simp add: of_char_of)

lemma splitSingleTlvRecord_toTlvRecord:
  "length v < 65536 \<Longrightarrow> splitSingleTlvRecord (toTlvRecord [t] v @ rest) = Some ((t, v), rest)"
  by (simp add: splitSingleTlvRecord_def toTlvRecord_def length_decode del: of_char_of)

lemma parseRecords_Nil: "parseRecords P pc l [] = (Returned pc, [])"
  by (simp add: parseRecords.simps)

lemma parseRecords_step:
  "length v < 65536 \<Longrightarrow>
   parseRecords P pc l (toTlvRecord [t] v @ rest) =
     (if int (of_char t) < l then (ReturnedFalse, [LogError ''Received unexpected TLV type.''])
      else parseRecords P (storeRecord P pc (of_char t) v rest) (int (of_char t)) rest)"
  by (subst parseRecords.simps)
     (simp add: splitSingleTlvRecord_toTlvRecord Let_def, simp add: toTlvRecord_def)

lemma parseRecords_last:
  "length v < 65536 \<Longrightarrow>
   parseRecords P pc l (toTlvRecord [t] v) =
     (if int (of_char t) < l then (ReturnedFalse, [LogError ''Received unexpected TLV type.''])
      else (Returned (storeRecord P pc (of_char t) v []), []))"
  using parseRecords_step[of v P pc l t "[]"] by (simp add: parseRecords_Nil)

lemma encodeRecords_Nil: "encodeRecords [] = []"
  by (simp add: encodeRecords_def)

lemma encodeRecords_Cons: "encodeRecords ((t, v) # rs) = toTlvRecord [t] v @ encodeRecords rs"
  by (simp add: encodeRecords_def)

lemma parseRecords_unordered:
  "list_all (\<lambda>(t, v). length v < 65536) rs \<Longrightarrow> \<not> sorted (l # map int (typeCodes rs)) \<Longrightarrow>
   parseRecords P pc l (encodeRecords rs) = (ReturnedFalse, [LogError ''Received unexpected TLV type.''])"
proof (induction rs arbitrary: pc l)
  case Nil
  then show ?case by (simp add: typeCodes_def)
next
  case (Cons r rs)
  obtain t v where r: "r = (t, v)" by (cases r)
  from Cons.prems(1) r have v: "length v < 65536" and rest: "list_all (\<lambda>(t, v). length v < 65536) rs"
    by simp_all
  show ?case
  proof (cases "int (of_char t) < l")
    case True
    then show ?thesis by (simp add: r encodeRecords_Cons parseRecords_step v)
  next
    case False
    have "sorted (l # int (of_char t) # map int (typeCodes rs))
            = (l \<le> int (of_char t) \<and> sorted (int (of_char t) # map int (typeCodes rs)))"
      by (rule sorted2)
    moreover have "typeCodes (r # rs) = of_char t # typeCodes rs"
      by (simp add: typeCodes_def r)
    ultimately have "\<not> sorted (int (of_char t) # map int (typeCodes rs))"
      using Cons.prems(2) False by simp
    from Cons.IH[OF rest this] False show ?thesis
      by (simp add: r encodeRecords_Cons parseRecords_step v)
  qed
qed

text \<open>
  Claim C7. A wire message whose record type codes are not in non-decreasing order makes
  \<open>decryptFrom\<close> fail as a malformed message: it returns \<open>false\<close>, leaves the handler
  as it was, and has logged the unexpected record type. A wire message is a version byte
  followed by records whose values fit the two length bytes. The witness is a message
  with a KEY_IDS record (type 6) before a NONCE record (type 3).
\<close>

theorem unordered_records_rejected:
  assumes "list_all (\<lambda>(t, v). length v < 65536) rs"
    and "\<not> sorted (typeCodes rs)"
  shows "decryptFrom P w (version # encodeRecords rs) sender h =
           (ReturnedFalse, h,
            [LogError ''Received unexpected TLV type.'', LogError ''Incoming message not usable.''])"
proof -
  have "\<not> sorted (- 1 # map int (typeCodes rs))"
    using assms(2) by (simp add: sorted_map)
  then have "parseRecords P pc (- 1) (encodeRecords rs)
               = (ReturnedFalse, [LogError ''Received unexpected TLV type.''])" for pc
    by (rule parseRecords_unordered[OF assms(1)])
  then show ?thesis by (simp add: decryptFrom_def parseMessageContent_def)
qed


theorem unordered_records_rejected_witness:
  "list_all (\<lambda>(t, v). length v < 65536) [(char_of TLV_KEY_IDS, ''abcd''), (char_of TLV_NONCE, ''0123456789ab'')]
   \<and> \<not> sorted (typeCodes [(char_of TLV_KEY_IDS, ''abcd''), (char_of TLV_NONCE, ''0123456789ab'')])
   \<and> decryptFrom toy world0
        (char_of PROTOCOL_VERSION
           # encodeRecords [(char_of TLV_KEY_IDS, ''abcd''), (char_of TLV_NONCE, ''0123456789ab'')])
        ''A'' alice =
       (ReturnedFalse, alice,
        [LogError ''Received unexpected TLV type.'', LogError ''Incoming message not usable.''])"
proof -
  let ?rs = "[(char_of TLV_KEY_IDS, ''abcd''), (char_of TLV_NONCE, ''0123456789ab'')]"
  have h1: "list_all (\<lambda>(t, v). length v < 65536) ?rs" by simp
  have h2: "\<not> sorted (typeCodes ?rs)" by (simp add: typeCodes_def)
  show ?thesis
    using unordered_records_rejected[OF h1 h2, of toy world0 "char_of PROTOCOL_VERSION" "''A''" alice] h1 h2
    by simp
qed

text \<open>Rules that evaluate the parser on a message given as a list of records.\<close>

lemmas parse_eval = parseMessageContent_def encodeRecords_Cons encodeRecords_Nil parseRecords_step
  parseRecords_last
  parseRecords_Nil storeRecord_def charCodeAt0_def

text \<open>
  Claim C8. Only RECIPIENT and KEYS records may repeat, as the source says of
  \<open>TLV_TYPES\<close>. The parser compares the type codes with \<open><\<close>, so it accepts a
  repeated record of any type: here a message with two NONCE and two PAYLOAD records is
  parsed, the later record of each type replacing the earlier one.
\<close>

theorem repeated_record_accepted:
  "case parseMessageContent toy
          (char_of PROTOCOL_VERSION
             # encodeRecords [(char_of TLV_NONCE, ''0123456789ab''), (char_of TLV_NONCE, ''ba9876543210''),
                              (char_of TLV_PAYLOAD, ''first''), (char_of TLV_PAYLOAD, ''second'')]) of
     (Returned pc, lg) \<Rightarrow> nonce pc = Some ''ba9876543210'' \<and> payload pc = Some ''second'' \<and> lg = []
   | (ReturnedFalse, lg) \<Rightarrow> False
   | (Thrown e, lg) \<Rightarrow> False"
  by (simp add: parse_eval)

subsection \<open>The outcomes of decrypting\<close>

lemma parseRecords_log:
  "parseRecords P pc l rest = (r, lg) \<Longrightarrow>
   (case r of
      Returned pc' \<Rightarrow> lg = []
    | ReturnedFalse \<Rightarrow> lg = [LogError ''Received unexpected TLV type.'']
    | Thrown e \<Rightarrow> e = MalformedRecord \<and> lg = [])"
proof (induction P pc l rest rule: parseRecords.induct)
  case (1 P pc lastTlvType rest)
  show ?case
  proof (cases "length rest > 0")
    case False
    with "1.prems" show ?thesis by (auto simp: parseRecords.simps[of P pc lastTlvType rest])
  next
    case True
    show ?thesis
    proof (cases "splitSingleTlvRecord rest")
      case None
      with True "1.prems" show ?thesis by (auto simp: parseRecords.simps[of P pc lastTlvType rest])
    next
      case (Some a)
      obtain t v rest' where a: "a = ((t, v), rest')" by (cases a) auto
      show ?thesis
      proof (cases "int (of_char t) < lastTlvType")
        case lt: True
        with True Some a "1.prems" show ?thesis
          by (auto simp: parseRecords.simps[of P pc lastTlvType rest])
      next
        case ge: False
        from True Some a ge "1.prems"
        have "parseRecords P (storeRecord P pc (of_char t) v rest') (int (of_char t)) rest' = (r, lg)"
          by (simp add: parseRecords.simps[of P pc lastTlvType rest] Let_def)
        with "1.IH"[OF True Some a[symmetric] refl refl ge]
        show ?thesis by simp
      qed
    qed
  qed
qed

lemma parseMessageContent_log:
  "parseMessageContent P m = (r, lg) \<Longrightarrow>
   (case r of
      Returned pc' \<Rightarrow> lg = []
    | ReturnedFalse \<Rightarrow> lg = [LogError ''Received unexpected TLV type.'']
                       \<or> lg = [LogError ''Number of keys does not match number of recipients.'']
    | Thrown e \<Rightarrow> e = MalformedRecord \<and> lg = [])"
proof -
  assume a: "parseMessageContent P m = (r, lg)"
  let ?pc0 = "\<lparr>recipients = [], keys = [], keyIds = [], protocolVersion = charCodeAt0 m,
            signature = None, signedContent = None, type = None, nonce = None,
            payload = None, undefined_property = None\<rparr>"
  obtain r0 lg0 where p: "parseRecords P ?pc0 (- 1) (drop 1 m) = (r0, lg0)"
    by (cases "parseRecords P ?pc0 (- 1) (drop 1 m)")
  from parseRecords_log[OF p] a p show ?thesis
    by (cases r0) (auto simp: parseMessageContent_def Let_def split: if_splits)
qed


lemma computeSymmetricKey_log:
  "computeSymmetricKey P w h u = (r, lg) \<Longrightarrow>
   (case r of
      Returned k \<Rightarrow> lg = []
    | ReturnedFalse \<Rightarrow> False
    | Thrown e \<Rightarrow> e = Error ''No cached chat key for user!''
                  \<and> lg = [LogError (''No cached chat key for user: '' @ u)])"
  by (auto simp: computeSymmetricKey_def Let_def split: option.splits if_splits)

lemma decryptKeysFor_log:
  assumes "decryptKeysFor P w h ek n other own = (r, lg)"
  shows "case r of
      Returned ks \<Rightarrow> lg = []
    | ReturnedFalse \<Rightarrow> False
    | Thrown e \<Rightarrow> True"
proof (cases "if own then other else Some (ownHandle h)")
  case None
  with assms show ?thesis by (auto simp: decryptKeysFor_def Let_def)
next
  case (Some rcv)
  show ?thesis
  proof (cases other)
    case None
    with assms Some show ?thesis by (auto simp: decryptKeysFor_def Let_def)
  next
    case (Some o')
    obtain r1 lg1 where c: "computeSymmetricKey P w h o' = (r1, lg1)"
      by (cases "computeSymmetricKey P w h o'")
    from computeSymmetricKey_log[OF c] assms c Some \<open>(if own then other else Some (ownHandle h)) = Some rcv\<close>
    show ?thesis
      by (cases r1) (auto simp: decryptKeysFor_def Let_def split: if_splits)
  qed
qed

lemma getSenderKey_cases [consumes 1, case_names unavailable cached unwrap_thrown conflict unwrapped]:
  assumes "getSenderKey P w pm sender h = (r, h', lg)"
  obtains
    (unavailable) "keys pm = []" "r = ReturnedFalse" "h' = h"
      "lg = [LogKeyUnavailable sender (nth_opt (keyIds pm) 0)]"
  | (cached) cache k where "keys pm = []" "participantKeys h sender = Some cache"
      "cache (str_of_undefined (nth_opt (keyIds pm) 0)) = Some k" "k \<noteq> []"
      "r = Returned (Some k)" "h' = h" "lg = []"
  | (unwrap_thrown) e where "keys pm \<noteq> []" "r = Thrown e" "h' = h"
  | (conflict) key0 other dks cache' where "keys pm \<noteq> []"
      "decryptKeysFor P w h key0 (nonce pm) other (sender = ownHandle h) = (Returned dks, [])"
      "cacheSenderKeys (keyIds pm) dks 0
         (case participantKeys h sender of None \<Rightarrow> Map.empty | Some c \<Rightarrow> c) = (False, cache')"
      "r = ReturnedFalse" "h' = h\<lparr>participantKeys := (participantKeys h)(sender \<mapsto> cache')\<rparr>"
      "lg = [LogError ''Mismatching statement on sender's previous key.'']"
  | (unwrapped) key0 other dks cache' where "keys pm \<noteq> []"
      "decryptKeysFor P w h key0 (nonce pm) other (sender = ownHandle h) = (Returned dks, [])"
      "cacheSenderKeys (keyIds pm) dks 0
         (case participantKeys h sender of None \<Rightarrow> Map.empty | Some c \<Rightarrow> c) = (True, cache')"
      "r = Returned (nth_opt dks 0)"
      "h' = h\<lparr>participantKeys := (participantKeys h)
               (sender \<mapsto> cache'((str_of_undefined (nth_opt (keyIds pm) 0)) := nth_opt dks 0))\<rparr>"
      "lg = []"
proof (cases "keys pm")
  case Nil
  show ?thesis
  proof (cases "participantKeys h sender")
    case None
    with Nil assms show ?thesis by (intro unavailable) (auto simp: getSenderKey_def Let_def)
  next
    case (Some cache)
    show ?thesis
    proof (cases "truthy (cache (str_of_undefined (nth_opt (keyIds pm) 0)))")
      case True
      then obtain k where "cache (str_of_undefined (nth_opt (keyIds pm) 0)) = Some k" "k \<noteq> []"
        by (auto simp: truthy_def split: option.splits)
      with Nil Some True assms show ?thesis
        by (intro cached[of cache k]) (auto simp: getSenderKey_def Let_def)
    next
      case False
      with Nil Some assms show ?thesis by (intro unavailable) (auto simp: getSenderKey_def Let_def)
    qed
  qed
next
  case (Cons key0 ks)
  let ?other = "if sender = ownHandle h then nth_opt (recipients pm) 0 else Some sender"
  obtain r1 lg1 where d: "decryptKeysFor P w h key0 (nonce pm) ?other (sender = ownHandle h) = (r1, lg1)"
    by (cases "decryptKeysFor P w h key0 (nonce pm) ?other (sender = ownHandle h)")
  note dl = decryptKeysFor_log[OF d]
  show ?thesis
  proof (cases r1)
    case (Returned dks)
    with dl have lg1: "lg1 = []" by simp
    let ?c = "case participantKeys h sender of None \<Rightarrow> Map.empty | Some c \<Rightarrow> c"
    obtain b cache' where c: "cacheSenderKeys (keyIds pm) dks 0 ?c = (b, cache')"
      by (cases "cacheSenderKeys (keyIds pm) dks 0 ?c")
    show ?thesis
    proof (cases b)
      case True
      with Cons d Returned lg1 c assms show ?thesis
        by (intro unwrapped[of key0 ?other dks cache']) (auto simp: getSenderKey_def Let_def)
    next
      case False
      with Cons d Returned lg1 c assms show ?thesis
        by (intro conflict[of key0 ?other dks cache']) (auto simp: getSenderKey_def Let_def)
    qed
  next
    case ReturnedFalse
    with dl show ?thesis by simp
  next
    case (Thrown e)
    with Cons d assms show ?thesis
      by (intro unwrap_thrown[of e]) (auto simp: getSenderKey_def Let_def)
  qed
qed

lemma symmetricDecryptMessage_cases:
  assumes "symmetricDecryptMessage P c k n = (r, lg)"
  shows "(r = Thrown TypeError \<and> lg = [])
       \<or> (r = ReturnedFalse \<and> lg = [LogError ''Could not decrypt message, probably a wrong key/nonce.''])
       \<or> (\<exists>t. r = Returned t \<and> lg = [])"
  using assms by (auto simp: symmetricDecryptMessage_def split: option.splits)

lemma decryptPayload_cases:
  assumes "decryptPayload P pm sender k = (r, lg)"
  shows "(r = Thrown TypeError \<and> lg = [])
       \<or> (r = ReturnedFalse \<and> lg = [LogError ''Could not decrypt message, probably a wrong key/nonce.''])
       \<or> (\<exists>t. r = Returned \<lparr>msg_sender = sender, msg_type = type pm, msg_payload = t\<rparr> \<and> lg = [])"
proof -
  obtain r1 lg1 where s: "symmetricDecryptMessage P (payload pm) k (nonce pm) = (r1, lg1)"
    by (cases "symmetricDecryptMessage P (payload pm) k (nonce pm)")
  from symmetricDecryptMessage_cases[OF s] assms s show ?thesis
    by (auto simp: decryptPayload_def)
qed

lemma verifyMessage_cases:
  "verifyMessage P m s k = Thrown TypeError \<or> (\<exists>b. verifyMessage P m s k = Returned b)"
  by (auto simp: verifyMessage_def split: option.splits)

lemma decryptFrom_cases
  [consumes 1, case_names parse_thrown malformed version verify_thrown signature key_thrown key_false payload]:
  assumes "decryptFrom P w message sender h = (r, h', lg)"
  obtains
    (parse_thrown) "r = Thrown MalformedRecord" "h' = h" "lg = []"
  | (malformed) l where "parseMessageContent P message = (ReturnedFalse, [l])"
      "l = LogError ''Received unexpected TLV type.''
       \<or> l = LogError ''Number of keys does not match number of recipients.''"
      "r = ReturnedFalse" "h' = h" "lg = [l, LogError ''Incoming message not usable.'']"
  | (version) pm where "parseMessageContent P message = (Returned pm, [])"
      "protocolVersion pm \<noteq> Num PROTOCOL_VERSION"
      "r = ReturnedFalse" "h' = h"
      "lg = [LogError ''Message not compatible with current protocol version.'']"
  | (verify_thrown) "r = Thrown TypeError" "h' = h" "lg = []"
  | (signature) pm where "parseMessageContent P message = (Returned pm, [])"
      "r = ReturnedFalse" "h' = h" "lg = [LogError ''Message signature invalid.'']"
  | (key_thrown) pm e where "parseMessageContent P message = (Returned pm, [])"
      "getSenderKey P w pm sender h = (Thrown e, h', lg)" "r = Thrown e"
  | (key_false) pm where "parseMessageContent P message = (Returned pm, [])"
      "getSenderKey P w pm sender h = (ReturnedFalse, h', lg)" "r = ReturnedFalse"
  | (payload) pm senderKey lg1 lg2 where "parseMessageContent P message = (Returned pm, [])"
      "getSenderKey P w pm sender h = (Returned senderKey, h', lg1)"
      "decryptPayload P pm sender senderKey = (r, lg2)" "lg = lg1 @ lg2"
proof -
  obtain r0 lg0 where p: "parseMessageContent P message = (r0, lg0)"
    by (cases "parseMessageContent P message")
  note pl = parseMessageContent_log[OF p]
  show ?thesis
  proof (cases r0)
    case (Thrown e)
    with pl p assms show ?thesis by (intro parse_thrown) (auto simp: decryptFrom_def)
  next
    case ReturnedFalse
    with pl obtain l where l: "lg0 = [l]" "l = LogError ''Received unexpected TLV type.''
       \<or> l = LogError ''Number of keys does not match number of recipients.''" by auto
    with ReturnedFalse p assms show ?thesis by (intro malformed[of l]) (auto simp: decryptFrom_def)
  next
    case (Returned pm)
    with pl have lg0: "lg0 = []" by simp
    note p' = p[unfolded Returned lg0]
    show ?thesis
    proof (cases "protocolVersion pm \<noteq> Num PROTOCOL_VERSION")
      case True
      with p' assms show ?thesis by (intro version[of pm]) (auto simp: decryptFrom_def)
    next
      case False
      then have v0: "protocolVersion pm = Num 0" by simp
      let ?v = "verifyMessage P (signedContent pm) (signature pm) (cache_pubEd25519 w sender)"
      from verifyMessage_cases[of P "signedContent pm" "signature pm" "cache_pubEd25519 w sender"]
      consider "?v = Thrown TypeError" | "?v = Returned False" | "?v = Returned True"
        by (metis (full_types))
      then show ?thesis
      proof cases
        case 1
        with p' v0 assms show ?thesis by (intro verify_thrown) (auto simp: decryptFrom_def)
      next
        case 2
        with p' v0 assms show ?thesis by (intro signature[of pm]) (auto simp: decryptFrom_def)
      next
        case 3
        obtain r1 h1 lg1 where g: "getSenderKey P w pm sender h = (r1, h1, lg1)"
          by (cases "getSenderKey P w pm sender h")
        show ?thesis
        proof (cases r1)
          case (Thrown e)
          with 3 g p' v0 assms show ?thesis by (intro key_thrown[of pm e]) (auto simp: decryptFrom_def)
        next
          case ReturnedFalse
          with 3 g p' v0 assms show ?thesis by (intro key_false[of pm]) (auto simp: decryptFrom_def)
        next
          case (Returned senderKey)
          obtain r2 lg2 where d: "decryptPayload P pm sender senderKey = (r2, lg2)"
            by (cases "decryptPayload P pm sender senderKey")
          with Returned 3 g p' v0 assms show ?thesis
            by (intro payload[of pm senderKey lg1 lg2]) (auto simp: decryptFrom_def)
        qed
      qed
    qed
  qed
qed

lemma getSenderKey_frame:
  assumes "getSenderKey P w pm sender h = (r, h', lg)"
  shows "\<exists>pk. h' = h\<lparr>participantKeys := pk\<rparr> \<and> (\<forall>p. p \<noteq> sender \<longrightarrow> pk p = participantKeys h p)"
  using assms
proof (cases rule: getSenderKey_cases)
  case (conflict key0 other dks cache')
  then show ?thesis by (intro exI[of _ "(participantKeys h)(sender \<mapsto> cache')"]) simp
next
  case (unwrapped key0 other dks cache')
  then show ?thesis by (intro exI[of _ "(participantKeys h)
               (sender \<mapsto> cache'((str_of_undefined (nth_opt (keyIds pm) 0)) := nth_opt dks 0))"]) simp
qed (auto intro: exI[of _ "participantKeys h"])

lemma decryptFrom_frame_aux:
  assumes "decryptFrom P w message sender h = (r, h', lg)"
  shows "\<exists>pk. h' = h\<lparr>participantKeys := pk\<rparr> \<and> (\<forall>p. p \<noteq> sender \<longrightarrow> pk p = participantKeys h p)"
  using assms
proof (cases rule: decryptFrom_cases)
  case (key_thrown pm e)
  then show ?thesis using getSenderKey_frame by blast
next
  case (key_false pm)
  then show ?thesis using getSenderKey_frame by blast
next
  case (payload pm senderKey lg1 lg2)
  then show ?thesis using getSenderKey_frame by blast
qed (auto intro: exI[of _ "participantKeys h"])

lemma splitKeys_Nil: "splitKeys [] = []"
  by (simp add: splitKeys.simps)

lemma splitKeys_Cons: "splitKeys (c # cs) = take KEY_SIZE (c # cs) # splitKeys (drop KEY_SIZE (c # cs))"
  by (subst splitKeys.simps) simp

lemma splitKeyIds_Nil: "splitKeyIds [] = []"
  by (simp add: splitKeyIds.simps)

lemma splitKeyIds_Cons:
  "splitKeyIds (c # cs) = take KEY_ID_SIZE (c # cs) # splitKeyIds (drop KEY_ID_SIZE (c # cs))"
  by (subst splitKeyIds.simps) simp

text \<open>Rules that evaluate \<open>decryptFrom\<close> on the example data.\<close>

lemmas decrypt_eval = decryptFrom_def verifyMessage_def getSenderKey_def decryptKeysFor_def
  computeSymmetricKey_def cacheSenderKeys.simps splitKeys_Nil splitKeys_Cons splitKeyIds_Nil
  splitKeyIds_Cons decryptPayload_def symmetricDecryptMessage_def nth_opt_def truthy_def
  str_of_undefined_def Let_def

lemmas example_eval = toy_def world0_def bob_def bob1_def ProtocolHandler_def or_default_def

lemma cacheSenderKeys_preserves:
  "cacheSenderKeys ids dks i c = (b, c') \<Longrightarrow> c k = Some v \<Longrightarrow> v \<noteq> [] \<Longrightarrow> c' k = Some v"
proof (induction ids dks i c rule: cacheSenderKeys.induct)
  case (1 ids dks i c)
  show ?case
  proof (cases "i < length dks")
    case False
    with "1.prems" show ?thesis by (simp add: cacheSenderKeys.simps[of ids dks i c])
  next
    case True
    let ?ident = "str_of_undefined (nth_opt ids i)"
    show ?thesis
    proof (cases "truthy (c ?ident) \<and> c ?ident \<noteq> Some (dks ! i)")
      case conflict: True
      with True "1.prems" show ?thesis by (simp add: cacheSenderKeys.simps[of ids dks i c] Let_def)
    next
      case ok: False
      with True "1.prems"(1)
      have rec: "cacheSenderKeys ids dks (i + 1) (c(?ident \<mapsto> dks ! i)) = (b, c')"
        by (simp add: cacheSenderKeys.simps[of ids dks i c] Let_def)
      have "(c(?ident \<mapsto> dks ! i)) k = Some v"
        using ok "1.prems"(2,3) by (auto simp: truthy_def)
      from "1.IH"[OF True refl refl ok rec this "1.prems"(3)] show ?thesis .
    qed
  qed
qed

lemma cacheSenderKeys_first:
  assumes "cacheSenderKeys ids dks 0 c = (True, c')" "dks \<noteq> []"
    and "c (str_of_undefined (nth_opt ids 0)) = Some v" "v \<noteq> []"
  shows "v = dks ! 0"
  using assms by (auto simp: cacheSenderKeys.simps[of ids dks 0 c] Let_def truthy_def split: if_splits)

lemma decryptPayload_None: "decryptPayload P pm sender None = (Thrown TypeError, [])"
  by (simp add: decryptPayload_def symmetricDecryptMessage_def)

lemma getSenderKey_preserves:
  assumes g: "getSenderKey P w pm sender h = (r, h', lg)" and r: "r \<noteq> Returned None"
    and b: "boundKey h p k = Some v" and v: "v \<noteq> []"
  shows "boundKey h' p k = Some v"
  using g
proof (cases rule: getSenderKey_cases)
  case (conflict key0 other dks cache')
  show ?thesis
  proof (cases "p = sender")
    case True
    with b obtain c where c: "participantKeys h sender = Some c" "c k = Some v"
      by (auto simp: boundKey_def split: option.splits)
    from cacheSenderKeys_preserves[OF conflict(3)[unfolded c(1), simplified] c(2) v]
    show ?thesis using True conflict(5) by (simp add: boundKey_def)
  next
    case False
    with b conflict(5) show ?thesis by (simp add: boundKey_def)
  qed
next
  case (unwrapped key0 other dks cache')
  from r unwrapped(4) have dks: "dks \<noteq> []" by (auto simp: nth_opt_def)
  show ?thesis
  proof (cases "p = sender")
    case True
    with b obtain c where c: "participantKeys h sender = Some c" "c k = Some v"
      by (auto simp: boundKey_def split: option.splits)
    note loop = unwrapped(3)[unfolded c(1), simplified]
    have k: "cache' k = Some v" by (rule cacheSenderKeys_preserves[OF loop c(2) v])
    have "(cache'(str_of_undefined (nth_opt (keyIds pm) 0) := nth_opt dks 0)) k = Some v"
    proof (cases "k = str_of_undefined (nth_opt (keyIds pm) 0)")
      case True
      from cacheSenderKeys_first[OF loop dks c(2)[unfolded True] v] dks True show ?thesis
        by (simp add: nth_opt_def)
    next
      case False
      with k show ?thesis by simp
    qed
    then show ?thesis using True unwrapped(5) by (simp add: boundKey_def)
  next
    case False
    with b unwrapped(5) show ?thesis by (simp add: boundKey_def)
  qed
qed (use b in auto)


subsection \<open>The example messages\<close>

lemma keyedMessage_decrypted:
  "decryptFrom toy world0 keyedMessage ''A'' bob =
     (Returned \<lparr>msg_sender = ''A'', msg_type = Some (Num GROUP_KEYED), msg_payload = ''hello''\<rparr>,
      bob1, [])"
  by (simp add: keyedMessage_def parse_eval decrypt_eval example_eval)

lemma conflictingMessage_outcome:
  "decryptFrom toy world0 conflictingMessage ''A'' bob1 =
     (ReturnedFalse,
      bob1\<lparr>participantKeys := (participantKeys bob1)
             (''A'' \<mapsto> [''abcd'' \<mapsto> ''0123456789abcdef'', ''abce'' \<mapsto> ''fedcba9876543210''])\<rparr>,
      [LogError ''Mismatching statement on sender's previous key.''])"
  by (simp add: conflictingMessage_def parse_eval decrypt_eval example_eval)


lemma other_version_outcome:
  "decryptFrom toy world0 [char_of (1::nat)] ''A'' bob1 =
     (ReturnedFalse, bob1, [LogError ''Message not compatible with current protocol version.''])"
  by (simp add: parse_eval decrypt_eval example_eval)

lemma bob1_bound: "boundKey bob1 ''A'' ''abcd'' = Some ''0123456789abcdef''"
  by (simp add: boundKey_def bob1_def)

subsection \<open>What decrypting changes in the handler\<close>

text \<open>
  Claim C10. \<open>decryptFrom\<close> leaves the sending state of the handler alone: whatever the
  outcome, the key ids \<open>keyId\<close>, \<open>previousKeyId\<close> and \<open>_sentKeyId\<close>, the encryption
  counter, the own handle and the private and public key fields (and the two thresholds
  and the participants) are as before; in the key store only the entry of the message's
  sender can differ.
\<close>

theorem decryptFrom_frame:
  "case decryptFrom P w message sender h of
     (r, h', lg) \<Rightarrow>
       keyId h' = keyId h \<and> previousKeyId h' = previousKeyId h \<and> sentKeyId h' = sentKeyId h
       \<and> keyEncryptionCount h' = keyEncryptionCount h \<and> ownHandle h' = ownHandle h
       \<and> privCu25519 h' = privCu25519 h \<and> privEd25519 h' = privEd25519 h
       \<and> pubEd25519 h' = pubEd25519 h \<and> rotateKeyEvery h' = rotateKeyEvery h
       \<and> sendKeyEveryReceived h' = sendKeyEveryReceived h \<and> participants h' = participants h
       \<and> (\<forall>p. p \<noteq> sender \<longrightarrow> participantKeys h' p = participantKeys h p)"
proof -
  obtain r h' lg where d: "decryptFrom P w message sender h = (r, h', lg)"
    by (cases "decryptFrom P w message sender h")
  from decryptFrom_frame_aux[OF d] obtain pk where
    "h' = h\<lparr>participantKeys := pk\<rparr>" "\<forall>p. p \<noteq> sender \<longrightarrow> pk p = participantKeys h p" by blast
  then show ?thesis by (simp add: d)
qed


theorem decryptFrom_frame_witness:
  "fst (decryptFrom toy world0 keyedMessage ''A'' bob) =
     Returned \<lparr>msg_sender = ''A'', msg_type = Some (Num GROUP_KEYED), msg_payload = ''hello''\<rparr>
   \<and> boundKey (fst (snd (decryptFrom toy world0 keyedMessage ''A'' bob))) ''A'' ''abcd''
       = Some ''0123456789abcdef''
   \<and> boundKey bob ''A'' ''abcd'' = None
   \<and> keyId (fst (snd (decryptFrom toy world0 keyedMessage ''A'' bob))) = keyId bob
   \<and> sentKeyId (fst (snd (decryptFrom toy world0 keyedMessage ''A'' bob))) = sentKeyId bob
   \<and> keyEncryptionCount (fst (snd (decryptFrom toy world0 keyedMessage ''A'' bob)))
       = keyEncryptionCount bob
   \<and> ''B'' \<noteq> ''A''
   \<and> participantKeys (fst (snd (decryptFrom toy world0 keyedMessage ''A'' bob))) ''B''
       = participantKeys bob ''B''"
  using decryptFrom_frame[where P = toy and w = world0 and message = keyedMessage
      and sender = "''A''" and h = bob]
  unfolding keyedMessage_decrypted
  by (simp add: boundKey_def bob1_def bob_def ProtocolHandler_def Let_def or_default_def)

subsection \<open>How failures are reported\<close>












subsection \<open>The key store when decrypting fails\<close>

lemma writeSenderKeys_0: "writeSenderKeys ids dks 0 c = c"
  by (simp add: writeSenderKeys_def)

lemma writeSenderKeys_Suc:
  "writeSenderKeys ids dks (Suc n) c =
     (writeSenderKeys ids dks n c)(str_of_undefined (nth_opt ids n) \<mapsto> dks ! n)"
  by (simp add: writeSenderKeys_def)

lemma cacheSenderKeys_writes:
  "cacheSenderKeys ids dks i c = (b, c') \<Longrightarrow> c = writeSenderKeys ids dks i c0 \<Longrightarrow> i \<le> length dks \<Longrightarrow>
   (if b then c' = writeSenderKeys ids dks (length dks) c0
    else \<exists>n. i \<le> n \<and> n < length dks \<and> c' = writeSenderKeys ids dks n c0
           \<and> truthy (c' (str_of_undefined (nth_opt ids n)))
           \<and> c' (str_of_undefined (nth_opt ids n)) \<noteq> Some (dks ! n))"
proof (induction ids dks i c rule: cacheSenderKeys.induct)
  case (1 ids dks i c)
  show ?case
  proof (cases "i < length dks")
    case False
    with "1.prems"(1) have "b" "c' = c"
      by (simp_all add: cacheSenderKeys.simps[of ids dks i c])
    with False "1.prems"(2,3) show ?thesis by simp
  next
    case True
    let ?ident = "str_of_undefined (nth_opt ids i)"
    show ?thesis
    proof (cases "truthy (c ?ident) \<and> c ?ident \<noteq> Some (dks ! i)")
      case conflict: True
      with True "1.prems"(1) have "b = False" "c' = c"
        by (simp_all add: cacheSenderKeys.simps[of ids dks i c] Let_def)
      with conflict True "1.prems"(2) show ?thesis by (auto intro: exI[of _ i])
    next
      case ok: False
      with True "1.prems"(1)
      have rec: "cacheSenderKeys ids dks (i + 1) (c(?ident \<mapsto> dks ! i)) = (b, c')"
        by (simp add: cacheSenderKeys.simps[of ids dks i c] Let_def)
      have w: "c(?ident \<mapsto> dks ! i) = writeSenderKeys ids dks (i + 1) c0"
        using "1.prems"(2) by (simp add: writeSenderKeys_Suc)
      from True have le: "i + 1 \<le> length dks" by simp
      note ih = "1.IH"[OF True refl refl ok rec w le]
      show ?thesis
      proof (cases b)
        case True
        with ih show ?thesis by simp
      next
        case False
        with ih obtain n where "i + 1 \<le> n" "n < length dks" "c' = writeSenderKeys ids dks n c0"
          "truthy (c' (str_of_undefined (nth_opt ids n)))"
          "c' (str_of_undefined (nth_opt ids n)) \<noteq> Some (dks ! n)"
          by auto
        then have "i \<le> n \<and> n < length dks \<and> c' = writeSenderKeys ids dks n c0
           \<and> truthy (c' (str_of_undefined (nth_opt ids n)))
           \<and> c' (str_of_undefined (nth_opt ids n)) \<noteq> Some (dks ! n)" by simp
        then have "\<exists>n. i \<le> n \<and> n < length dks \<and> c' = writeSenderKeys ids dks n c0
           \<and> truthy (c' (str_of_undefined (nth_opt ids n)))
           \<and> c' (str_of_undefined (nth_opt ids n)) \<noteq> Some (dks ! n)" by (rule exI)
        with False show ?thesis by (simp only: if_False)
      qed
    qed
  qed
qed

lemma getSenderKey_keyed:
  "keys pm = key0 # rest \<Longrightarrow>
   getSenderKey P w pm sender h =
     (case decryptKeysFor P w h key0 (nonce pm)
             (if sender = ownHandle h then nth_opt (recipients pm) 0 else Some sender)
             (sender = ownHandle h) of
        (Thrown e, lg) \<Rightarrow> (Thrown e, h, lg)
      | (ReturnedFalse, lg) \<Rightarrow> (ReturnedFalse, h, lg)
      | (Returned dks, lg) \<Rightarrow>
          (case cacheSenderKeys (keyIds pm) dks 0
                  (case participantKeys h sender of None \<Rightarrow> Map.empty | Some c \<Rightarrow> c) of
             (False, c') \<Rightarrow>
               (ReturnedFalse, h\<lparr>participantKeys := (participantKeys h)(sender \<mapsto> c')\<rparr>,
                lg @ [LogError ''Mismatching statement on sender's previous key.''])
           | (True, c') \<Rightarrow>
               (Returned (nth_opt dks 0),
                h\<lparr>participantKeys := (participantKeys h)
                     (sender \<mapsto> c'((str_of_undefined (nth_opt (keyIds pm) 0)) := nth_opt dks 0))\<rparr>,
                lg)))"
  by (auto simp: getSenderKey_def Let_def split: prod.splits outcome.splits)

lemma getSenderKey_conflict_writes:
  assumes g: "getSenderKey P w pm sender h =
      (ReturnedFalse, h', [LogError ''Mismatching statement on sender's previous key.''])"
  shows "\<exists>key0 rest dks n.
           keys pm = key0 # rest
         \<and> decryptKeysFor P w h key0 (nonce pm)
             (if sender = ownHandle h then nth_opt (recipients pm) 0 else Some sender)
             (sender = ownHandle h) = (Returned dks, [])
         \<and> n < length dks
         \<and> h' = h\<lparr>participantKeys := (participantKeys h)
                   (sender \<mapsto> writeSenderKeys (keyIds pm) dks n
                      (case participantKeys h sender of None \<Rightarrow> Map.empty | Some c \<Rightarrow> c))\<rparr>
         \<and> truthy (writeSenderKeys (keyIds pm) dks n
                      (case participantKeys h sender of None \<Rightarrow> Map.empty | Some c \<Rightarrow> c)
                      (str_of_undefined (nth_opt (keyIds pm) n)))
         \<and> writeSenderKeys (keyIds pm) dks n
              (case participantKeys h sender of None \<Rightarrow> Map.empty | Some c \<Rightarrow> c)
              (str_of_undefined (nth_opt (keyIds pm) n)) \<noteq> Some (dks ! n)"
proof (cases "keys pm")
  case Nil
  with g show ?thesis by (auto simp: getSenderKey_def Let_def split: option.splits if_splits)
next
  case (Cons key0 rest)
  let ?c = "case participantKeys h sender of None \<Rightarrow> Map.empty | Some c \<Rightarrow> c"
  let ?other = "if sender = ownHandle h then nth_opt (recipients pm) 0 else Some sender"
  obtain r1 lg1 where d: "decryptKeysFor P w h key0 (nonce pm) ?other (sender = ownHandle h) = (r1, lg1)"
    by (cases "decryptKeysFor P w h key0 (nonce pm) ?other (sender = ownHandle h)")
  note dl = decryptKeysFor_log[OF d]
  show ?thesis
  proof (cases r1)
    case (Returned dks)
    with dl have lg1: "lg1 = []" by simp
    obtain b c' where c: "cacheSenderKeys (keyIds pm) dks 0 ?c = (b, c')"
      by (cases "cacheSenderKeys (keyIds pm) dks 0 ?c")
    from g d c Returned lg1 have b: "\<not> b"
      and h': "h' = h\<lparr>participantKeys := (participantKeys h)(sender \<mapsto> c')\<rparr>"
      by (cases b; simp add: getSenderKey_keyed[OF Cons])+
    from cacheSenderKeys_writes[OF c] b
    obtain n where n: "n < length dks" "c' = writeSenderKeys (keyIds pm) dks n ?c"
      "truthy (c' (str_of_undefined (nth_opt (keyIds pm) n)))"
      "c' (str_of_undefined (nth_opt (keyIds pm) n)) \<noteq> Some (dks ! n)"
      by (auto simp: writeSenderKeys_0)
    with Cons d Returned lg1 h' show ?thesis by blast
  next
    case ReturnedFalse
    with dl show ?thesis by simp
  next
    case (Thrown e)
    with g d show ?thesis by (simp add: getSenderKey_keyed[OF Cons])
  qed
qed

lemma getSenderKey_returned_writes:
  assumes g: "getSenderKey P w pm sender h = (Returned senderKey, h', lg)"
  shows "(keys pm = [] \<and> h' = h)
       \<or> (\<exists>key0 rest dks.
            keys pm = key0 # rest
          \<and> decryptKeysFor P w h key0 (nonce pm)
              (if sender = ownHandle h then nth_opt (recipients pm) 0 else Some sender)
              (sender = ownHandle h) = (Returned dks, [])
          \<and> senderKey = nth_opt dks 0
          \<and> h' = h\<lparr>participantKeys := (participantKeys h)
                    (sender \<mapsto> (writeSenderKeys (keyIds pm) dks (length dks)
                       (case participantKeys h sender of None \<Rightarrow> Map.empty | Some c \<Rightarrow> c))
                       ((str_of_undefined (nth_opt (keyIds pm) 0)) := nth_opt dks 0))\<rparr>)"
proof (cases "keys pm")
  case Nil
  with g show ?thesis by (auto simp: getSenderKey_def Let_def split: option.splits if_splits)
next
  case (Cons key0 rest)
  let ?c = "case participantKeys h sender of None \<Rightarrow> Map.empty | Some c \<Rightarrow> c"
  let ?other = "if sender = ownHandle h then nth_opt (recipients pm) 0 else Some sender"
  obtain r1 lg1 where d: "decryptKeysFor P w h key0 (nonce pm) ?other (sender = ownHandle h) = (r1, lg1)"
    by (cases "decryptKeysFor P w h key0 (nonce pm) ?other (sender = ownHandle h)")
  note dl = decryptKeysFor_log[OF d]
  show ?thesis
  proof (cases r1)
    case (Returned dks)
    with dl have lg1: "lg1 = []" by simp
    obtain b c' where c: "cacheSenderKeys (keyIds pm) dks 0 ?c = (b, c')"
      by (cases "cacheSenderKeys (keyIds pm) dks 0 ?c")
    from g d c Returned lg1 have b: "b" and sk: "senderKey = nth_opt dks 0"
      and h': "h' = h\<lparr>participantKeys := (participantKeys h)
                 (sender \<mapsto> c'((str_of_undefined (nth_opt (keyIds pm) 0)) := nth_opt dks 0))\<rparr>"
      by (cases b; simp add: getSenderKey_keyed[OF Cons])+
    from cacheSenderKeys_writes[OF c] b
    have "c' = writeSenderKeys (keyIds pm) dks (length dks) ?c"
      by (simp add: writeSenderKeys_0)
    with Cons d Returned lg1 h' sk show ?thesis by blast
  next
    case ReturnedFalse
    with dl show ?thesis by simp
  next
    case (Thrown e)
    with g d show ?thesis by (simp add: getSenderKey_keyed[OF Cons])
  qed
qed

text \<open>
  Claim C5, as stated, fails: the keys of a message are checked and cached one by one, so
  a call that fails with a key conflict on the second key has already cached the first.
  Here \<open>bob1\<close> holds no key under \<open>abce\<close>; the call fails on \<open>abcd\<close>, and \<open>abce\<close> is
  bound afterwards.
\<close>

theorem key_conflict_after_write_counterexample:
  "decryptFrom toy world0 conflictingMessage ''A'' bob1 =
     (ReturnedFalse,
      bob1\<lparr>participantKeys := (participantKeys bob1)
             (''A'' \<mapsto> [''abcd'' \<mapsto> ''0123456789abcdef'', ''abce'' \<mapsto> ''fedcba9876543210''])\<rparr>,
      [LogError ''Mismatching statement on sender's previous key.''])
   \<and> boundKey bob1 ''A'' ''abce'' = None"
  using conflictingMessage_outcome by (simp add: boundKey_def bob1_def bob_def ProtocolHandler_def)

text \<open>
  Claim C5, amended. A call of \<open>decryptFrom\<close> that returns \<open>false\<close> writes nothing
  after the check that fails. It changes or removes no non-empty binding of the key
  store and touches only the bindings of the sender. Unless it failed with a key conflict
  or a failed decryption, it leaves the handler as it was. When it fails with a key
  conflict, on the key of index \<open>n\<close> of the message, the store is the one before the call
  with exactly the \<open>n\<close> keys that precede that key written, each after its own check;
  the conflicting key and the keys after it are not written. When it fails because the
  payload does not decrypt, the store is unchanged for a message without keys, and has
  otherwise exactly the keys of the message written, all checks on keys having passed.
\<close>

theorem no_write_after_failed_check:
  assumes "decryptFrom P w message sender h = (ReturnedFalse, h', lg)"
  shows "(\<forall>p k v. boundKey h p k = Some v \<and> v \<noteq> [] \<longrightarrow> boundKey h' p k = Some v)
       \<and> (\<forall>p k. p \<noteq> sender \<longrightarrow> boundKey h' p k = boundKey h p k)
       \<and> (lg \<noteq> [LogError ''Mismatching statement on sender's previous key.'']
          \<and> lg \<noteq> [LogError ''Could not decrypt message, probably a wrong key/nonce.'']
          \<longrightarrow> h' = h)
       \<and> (lg = [LogError ''Mismatching statement on sender's previous key.''] \<longrightarrow>
            (\<exists>pm key0 rest dks n.
                parseMessageContent P message = (Returned pm, [])
              \<and> keys pm = key0 # rest
              \<and> decryptKeysFor P w h key0 (nonce pm)
                  (if sender = ownHandle h then nth_opt (recipients pm) 0 else Some sender)
                  (sender = ownHandle h) = (Returned dks, [])
              \<and> n < length dks
              \<and> h' = h\<lparr>participantKeys := (participantKeys h)
                        (sender \<mapsto> writeSenderKeys (keyIds pm) dks n
                           (case participantKeys h sender of None \<Rightarrow> Map.empty | Some c \<Rightarrow> c))\<rparr>
              \<and> truthy (writeSenderKeys (keyIds pm) dks n
                           (case participantKeys h sender of None \<Rightarrow> Map.empty | Some c \<Rightarrow> c)
                           (str_of_undefined (nth_opt (keyIds pm) n)))
              \<and> writeSenderKeys (keyIds pm) dks n
                   (case participantKeys h sender of None \<Rightarrow> Map.empty | Some c \<Rightarrow> c)
                   (str_of_undefined (nth_opt (keyIds pm) n)) \<noteq> Some (dks ! n)))
       \<and> (lg = [LogError ''Could not decrypt message, probably a wrong key/nonce.''] \<longrightarrow>
            (\<exists>pm. parseMessageContent P message = (Returned pm, [])
              \<and> ((keys pm = [] \<and> h' = h)
                 \<or> (\<exists>key0 rest dks.
                      keys pm = key0 # rest
                    \<and> decryptKeysFor P w h key0 (nonce pm)
                        (if sender = ownHandle h then nth_opt (recipients pm) 0 else Some sender)
                        (sender = ownHandle h) = (Returned dks, [])
                    \<and> h' = h\<lparr>participantKeys := (participantKeys h)
                              (sender \<mapsto> (writeSenderKeys (keyIds pm) dks (length dks)
                                 (case participantKeys h sender of None \<Rightarrow> Map.empty | Some c \<Rightarrow> c))
                                 ((str_of_undefined (nth_opt (keyIds pm) 0)) := nth_opt dks 0))\<rparr>))))"
proof (intro conjI)
  show "\<forall>p k v. boundKey h p k = Some v \<and> v \<noteq> [] \<longrightarrow> boundKey h' p k = Some v"
    using assms
  proof (cases rule: decryptFrom_cases)
    case (key_false pm)
    then show ?thesis using getSenderKey_preserves by blast
  next
    case (payload pm senderKey lg1 lg2)
    have "senderKey \<noteq> None"
    proof
      assume "senderKey = None"
      with payload(3) show False by (simp add: decryptPayload_None)
    qed
    with payload(2) show ?thesis using getSenderKey_preserves by blast
  qed simp_all
  show "\<forall>p k. p \<noteq> sender \<longrightarrow> boundKey h' p k = boundKey h p k"
    using decryptFrom_frame_aux[OF assms] by (auto simp: boundKey_def)
  show "lg \<noteq> [LogError ''Mismatching statement on sender's previous key.'']
          \<and> lg \<noteq> [LogError ''Could not decrypt message, probably a wrong key/nonce.'']
          \<longrightarrow> h' = h"
    using assms
  proof (cases rule: decryptFrom_cases)
    case (key_false pm)
    from key_false(2) show ?thesis by (cases rule: getSenderKey_cases) auto
  next
    case (payload pm senderKey lg1 lg2)
    from decryptPayload_cases[OF payload(3)]
    have lg2: "lg2 = [LogError ''Could not decrypt message, probably a wrong key/nonce.'']" by auto
    from payload(2) have "lg1 = []" by (cases rule: getSenderKey_cases) auto
    with lg2 payload(4) show ?thesis by simp
  qed simp_all
  show "lg = [LogError ''Mismatching statement on sender's previous key.''] \<longrightarrow>
            (\<exists>pm key0 rest dks n.
                parseMessageContent P message = (Returned pm, [])
              \<and> keys pm = key0 # rest
              \<and> decryptKeysFor P w h key0 (nonce pm)
                  (if sender = ownHandle h then nth_opt (recipients pm) 0 else Some sender)
                  (sender = ownHandle h) = (Returned dks, [])
              \<and> n < length dks
              \<and> h' = h\<lparr>participantKeys := (participantKeys h)
                        (sender \<mapsto> writeSenderKeys (keyIds pm) dks n
                           (case participantKeys h sender of None \<Rightarrow> Map.empty | Some c \<Rightarrow> c))\<rparr>
              \<and> truthy (writeSenderKeys (keyIds pm) dks n
                           (case participantKeys h sender of None \<Rightarrow> Map.empty | Some c \<Rightarrow> c)
                           (str_of_undefined (nth_opt (keyIds pm) n)))
              \<and> writeSenderKeys (keyIds pm) dks n
                   (case participantKeys h sender of None \<Rightarrow> Map.empty | Some c \<Rightarrow> c)
                   (str_of_undefined (nth_opt (keyIds pm) n)) \<noteq> Some (dks ! n))"
  proof
    assume lg: "lg = [LogError ''Mismatching statement on sender's previous key.'']"
    from assms show "\<exists>pm key0 rest dks n.
                parseMessageContent P message = (Returned pm, [])
              \<and> keys pm = key0 # rest
              \<and> decryptKeysFor P w h key0 (nonce pm)
                  (if sender = ownHandle h then nth_opt (recipients pm) 0 else Some sender)
                  (sender = ownHandle h) = (Returned dks, [])
              \<and> n < length dks
              \<and> h' = h\<lparr>participantKeys := (participantKeys h)
                        (sender \<mapsto> writeSenderKeys (keyIds pm) dks n
                           (case participantKeys h sender of None \<Rightarrow> Map.empty | Some c \<Rightarrow> c))\<rparr>
              \<and> truthy (writeSenderKeys (keyIds pm) dks n
                           (case participantKeys h sender of None \<Rightarrow> Map.empty | Some c \<Rightarrow> c)
                           (str_of_undefined (nth_opt (keyIds pm) n)))
              \<and> writeSenderKeys (keyIds pm) dks n
                   (case participantKeys h sender of None \<Rightarrow> Map.empty | Some c \<Rightarrow> c)
                   (str_of_undefined (nth_opt (keyIds pm) n)) \<noteq> Some (dks ! n)"
    proof (cases rule: decryptFrom_cases)
      case (malformed l)
      with lg show ?thesis by simp
    next
      case (version pm)
      with lg show ?thesis by simp
    next
      case (signature pm)
      with lg show ?thesis by simp
    next
      case (key_false pm)
      from getSenderKey_conflict_writes[OF key_false(2)[unfolded lg]] key_false(1)
      show ?thesis by blast
    next
      case (payload pm senderKey lg1 lg2)
      from decryptPayload_cases[OF payload(3)]
      have lg2: "lg2 = [LogError ''Could not decrypt message, probably a wrong key/nonce.'']" by auto
      from payload(2) have "lg1 = []" by (cases rule: getSenderKey_cases) auto
      with lg2 payload(4) lg show ?thesis by simp
    qed simp_all
  qed
  show "lg = [LogError ''Could not decrypt message, probably a wrong key/nonce.''] \<longrightarrow>
            (\<exists>pm. parseMessageContent P message = (Returned pm, [])
              \<and> ((keys pm = [] \<and> h' = h)
                 \<or> (\<exists>key0 rest dks.
                      keys pm = key0 # rest
                    \<and> decryptKeysFor P w h key0 (nonce pm)
                        (if sender = ownHandle h then nth_opt (recipients pm) 0 else Some sender)
                        (sender = ownHandle h) = (Returned dks, [])
                    \<and> h' = h\<lparr>participantKeys := (participantKeys h)
                              (sender \<mapsto> (writeSenderKeys (keyIds pm) dks (length dks)
                                 (case participantKeys h sender of None \<Rightarrow> Map.empty | Some c \<Rightarrow> c))
                                 ((str_of_undefined (nth_opt (keyIds pm) 0)) := nth_opt dks 0))\<rparr>)))"
  proof
    assume lg: "lg = [LogError ''Could not decrypt message, probably a wrong key/nonce.'']"
    from assms show "\<exists>pm. parseMessageContent P message = (Returned pm, [])
              \<and> ((keys pm = [] \<and> h' = h)
                 \<or> (\<exists>key0 rest dks.
                      keys pm = key0 # rest
                    \<and> decryptKeysFor P w h key0 (nonce pm)
                        (if sender = ownHandle h then nth_opt (recipients pm) 0 else Some sender)
                        (sender = ownHandle h) = (Returned dks, [])
                    \<and> h' = h\<lparr>participantKeys := (participantKeys h)
                              (sender \<mapsto> (writeSenderKeys (keyIds pm) dks (length dks)
                                 (case participantKeys h sender of None \<Rightarrow> Map.empty | Some c \<Rightarrow> c))
                                 ((str_of_undefined (nth_opt (keyIds pm) 0)) := nth_opt dks 0))\<rparr>))"
    proof (cases rule: decryptFrom_cases)
      case (malformed l)
      with lg show ?thesis by simp
    next
      case (version pm)
      with lg show ?thesis by simp
    next
      case (signature pm)
      with lg show ?thesis by simp
    next
      case (key_false pm)
      from key_false(2) lg show ?thesis by (cases rule: getSenderKey_cases) auto
    next
      case (payload pm senderKey lg1 lg2)
      from getSenderKey_returned_writes[OF payload(2)] payload(1)
      show ?thesis by blast
    qed simp_all
  qed
qed

theorem no_write_after_failed_check_witness:
  "decryptFrom toy world0 conflictingMessage ''A'' bob1 =
     (ReturnedFalse,
      bob1\<lparr>participantKeys := (participantKeys bob1)
             (''A'' \<mapsto> [''abcd'' \<mapsto> ''0123456789abcdef'', ''abce'' \<mapsto> ''fedcba9876543210''])\<rparr>,
      [LogError ''Mismatching statement on sender's previous key.''])
   \<and> writeSenderKeys [''abce'', ''abcd''] [''fedcba9876543210'', ''XXXXXXXXXXXXXXXX''] 1
        [''abcd'' \<mapsto> ''0123456789abcdef'']
      = [''abcd'' \<mapsto> ''0123456789abcdef'', ''abce'' \<mapsto> ''fedcba9876543210'']
   \<and> boundKey bob1 ''A'' ''abcd'' = Some ''0123456789abcdef''
   \<and> boundKey (bob1\<lparr>participantKeys := (participantKeys bob1)
             (''A'' \<mapsto> [''abcd'' \<mapsto> ''0123456789abcdef'', ''abce'' \<mapsto> ''fedcba9876543210''])\<rparr>)
         ''A'' ''abcd'' = Some ''0123456789abcdef''
   \<and> decryptFrom toy world0 [char_of (1::nat)] ''A'' bob1 =
     (ReturnedFalse, bob1, [LogError ''Message not compatible with current protocol version.''])"
proof -
  have w: "writeSenderKeys [''abce'', ''abcd''] [''fedcba9876543210'', ''XXXXXXXXXXXXXXXX''] 1
        [''abcd'' \<mapsto> ''0123456789abcdef'']
      = [''abcd'' \<mapsto> ''0123456789abcdef'', ''abce'' \<mapsto> ''fedcba9876543210'']"
    by (simp add: writeSenderKeys_def nth_opt_def str_of_undefined_def)
  from no_write_after_failed_check[OF conflictingMessage_outcome]
    no_write_after_failed_check[OF other_version_outcome]
    conflictingMessage_outcome other_version_outcome bob1_bound w
  show ?thesis by simp
qed

subsection \<open>Rebinding a cached key\<close>

text \<open>
  Claim C4. A cached sender key is not to be rebound. The loop of \<open>decryptFrom\<close> checks
  each key before it caches it, but the assignment after the loop does not: a signed
  message whose KEYS record is empty unwraps to no key, and the assignment then stores
  \<open>undefined\<close> under the first key id of the message. Here \<open>bob1\<close> holds a key of \<open>A\<close>
  under \<open>abcd\<close>; the message with the empty KEYS record removes it (the call then throws
  on the missing key), and a later keyed message binds \<open>abcd\<close> to another key without
  any conflict being reported.
\<close>

theorem empty_keys_record_unbinds:
  "boundKey bob1 ''A'' ''abcd'' = Some ''0123456789abcdef''
   \<and> decryptFrom toy world0 emptyKeysMessage ''A'' bob1 =
        (Thrown TypeError, bob1\<lparr>participantKeys := (participantKeys bob1)(''A'' \<mapsto> Map.empty)\<rparr>, [])
   \<and> decryptFrom toy world0 rekeyMessage ''A''
          (bob1\<lparr>participantKeys := (participantKeys bob1)(''A'' \<mapsto> Map.empty)\<rparr>) =
        (Returned \<lparr>msg_sender = ''A'', msg_type = Some (Num GROUP_KEYED), msg_payload = ''hello''\<rparr>,
         bob1\<lparr>participantKeys := (participantKeys bob1)(''A'' \<mapsto> [''abcd'' \<mapsto> ''XXXXXXXXXXXXXXXX''])\<rparr>,
         [])"
  by (simp add: boundKey_def emptyKeysMessage_def rekeyMessage_def parse_eval decrypt_eval example_eval)

subsection \<open>Encrypting\<close>

lemma encodeRecords_append: "encodeRecords (xs @ ys) = encodeRecords xs @ encodeRecords ys"
  by (simp add: encodeRecords_def)

lemma assembleMessage_keyed:
  "ek \<noteq> [] \<Longrightarrow>
   assembleMessage P h d t n c (Some ek) (Some v) =
     (Returned (signedMessage P h
        [(char_of TLV_MESSAGE_TYPE, [char_of t]), (char_of TLV_NONCE, n),
         (char_of TLV_RECIPIENT, base64urldecode P d), (char_of TLV_KEYS, ek),
         (char_of TLV_KEY_IDS, v), (char_of TLV_PAYLOAD, c)]),
      h\<lparr>sentKeyId := keyId h, keyEncryptionCount := keyEncryptionCount h + 1\<rparr>)"
  by (simp add: assembleMessage_def signedMessage_def encodeRecords_Cons encodeRecords_Nil Let_def)

lemma assembleMessage_lean:
  "\<not> truthy ek \<Longrightarrow> keyId h = Some v \<Longrightarrow>
   assembleMessage P h d t n c ek ids =
     (Returned (signedMessage P h
        [(char_of TLV_MESSAGE_TYPE, [char_of t]), (char_of TLV_NONCE, n),
         (char_of TLV_KEY_IDS, v), (char_of TLV_PAYLOAD, c)]),
      h\<lparr>keyEncryptionCount := keyEncryptionCount h + 1\<rparr>)"
  by (auto simp: assembleMessage_def signedMessage_def encodeRecords_Cons encodeRecords_Nil Let_def
      truthy_def split: option.splits)

lemma assembleMessage_null:
  "\<not> truthy ek \<Longrightarrow> keyId h = None \<Longrightarrow>
   assembleMessage P h d t n c ek ids = (Thrown TypeError, h)"
  by (auto simp: assembleMessage_def Let_def truthy_def split: option.splits)

lemma assembleMessage_keyed_null:
  "ek \<noteq> [] \<Longrightarrow>
   assembleMessage P h d t n c (Some ek) None = (Thrown TypeError, h\<lparr>sentKeyId := keyId h\<rparr>)"
  by (simp add: assembleMessage_def Let_def)

lemma getRandomValues_const:
  "getRandomValues n (w\<lparr>entropy := (\<lambda>i. c)\<rparr>) = (replicate n c, w\<lparr>entropy := (\<lambda>i. c)\<rparr>)"
  by (simp add: getRandomValues_def map_replicate_const)

text \<open>
  Claim C2. The first message of a handler should be a keyed message: \<open>GROUP_KEYED\<close> is
  documented as the message with a new sender key, initial or after rotation, and a
  follow-up is for a sender key that has been sent already. A freshly constructed handler
  has \<open>keyId\<close> and \<open>_sentKeyId\<close> both \<open>null\<close> and no sender key; \<open>encryptTo\<close> rotates only
  on the message count, so it finds the two key ids equal and takes the follow-up branch.
  No RECIPIENT or KEYS record is written, and writing the KEY_IDS record for the
  \<open>null\<close> key id throws: the first call produces no keyed message.
\<close>

theorem first_message_not_keyed:
  "sentKeyId fresh = keyId fresh
   \<and> encryptTo toy world0 ''hello'' ''B'' fresh = (Thrown TypeError, world0, fresh, [])"
proof -
  have f: "keyId fresh = None" "sentKeyId fresh = None" "participantKeys fresh ''A'' = Some Map.empty"
    "ownHandle fresh = ''A''" "keyEncryptionCount fresh = 0" "rotateKeyEvery fresh = 16"
    by (simp_all add: fresh_def ProtocolHandler_def or_default_def Let_def)
  have w: "world0 = world0\<lparr>entropy := (\<lambda>i. CHR ''k'')\<rparr>" by (simp add: world0_def)
  have r: "getRandomValues n world0 = (replicate n CHR ''k'', world0)" for n
    by (subst w, subst getRandomValues_const) (simp add: world0_def)
  have s: "symmetricEncryptMessage toy world0 ''hello'' None None
             = (Returned (''hello'', replicate 16 CHR ''k'', replicate 12 CHR ''k''), world0)"
    by (simp add: symmetricEncryptMessage_def r) (simp add: toy_def)
  show ?thesis
    by (simp add: encryptTo_def rotateKeyIfDue_def f s str_of_null_def assembleMessage_null truthy_def)
qed

lemma symmetricEncryptMessage_cases:
  assumes "symmetricEncryptMessage P w m k None = (r, w')"
  shows "r = Thrown URIError
       \<or> (\<exists>clear usedKey w1. utf8_encode P m = Some clear
            \<and> (usedKey, w1) = (if truthy k then (str_of_undefined k, w) else getRandomValues KEY_SIZE w)
            \<and> r = Returned (AES_CTR_encrypt P clear usedKey (fst (getRandomValues NONCE_SIZE w1)),
                             usedKey, fst (getRandomValues NONCE_SIZE w1))
            \<and> w' = snd (getRandomValues NONCE_SIZE w1))"
  using assms
  by (auto simp: symmetricEncryptMessage_def Let_def truthy_def str_of_undefined_def
      split: option.splits prod.splits if_splits)

lemma encryptKeysFor_log:
  assumes "encryptKeysFor P w h ks n d = (r, lg)"
  shows "case r of Returned ek \<Rightarrow> lg = [] | ReturnedFalse \<Rightarrow> False | Thrown e \<Rightarrow> True"
proof (cases "length ks > 0")
  case False
  with assms show ?thesis by (auto simp: encryptKeysFor_def)
next
  case True
  obtain r1 lg1 where c: "computeSymmetricKey P w h d = (r1, lg1)"
    by (cases "computeSymmetricKey P w h d")
  from computeSymmetricKey_log[OF c] assms c True show ?thesis
    by (cases r1) (auto simp: encryptKeysFor_def Let_def)
qed

lemma encryptTo_Returned [consumes 1, case_names followup keyed unsent]:
  assumes "encryptTo P w message destination h = (Returned msg, w', h', lg)"
  obtains
    (followup) w1 h1 own kid ciphertext usedKey usedNonce where
      "rotateKeyIfDue w h = (None, w1, h1)" "participantKeys h1 (ownHandle h1) = Some own"
      "symmetricEncryptMessage P w1 message (own (str_of_null (keyId h1))) None
         = (Returned (ciphertext, usedKey, usedNonce), w')"
      "sentKeyId h1 = keyId h1" "keyId h1 = Some kid"
      "msg = signedMessage P h1
         [(char_of TLV_MESSAGE_TYPE, [char_of GROUP_FOLLOWUP]), (char_of TLV_NONCE, usedNonce),
          (char_of TLV_KEY_IDS, kid), (char_of TLV_PAYLOAD, ciphertext)]"
      "h' = h1\<lparr>keyEncryptionCount := keyEncryptionCount h1 + 1\<rparr>" "lg = []"
  | (keyed) w1 h1 own ciphertext usedKey usedNonce ks ids ek where
      "rotateKeyIfDue w h = (None, w1, h1)" "participantKeys h1 (ownHandle h1) = Some own"
      "symmetricEncryptMessage P w1 message (own (str_of_null (keyId h1))) None
         = (Returned (ciphertext, usedKey, usedNonce), w')"
      "sentKeyId h1 \<noteq> keyId h1"
      "(case previousKeyId h1 of
          Some p \<Rightarrow> if p \<noteq> [] then ([own (str_of_null (keyId h1)), own p],
                                      Some (str_of_null (keyId h1) @ p))
                    else ([own (str_of_null (keyId h1))], keyId h1)
        | None \<Rightarrow> ([own (str_of_null (keyId h1))], keyId h1)) = (ks, Some ids)"
      "encryptKeysFor P w' h1 ks usedNonce destination = (Returned ek, [])" "ek \<noteq> []"
      "msg = signedMessage P h1
         [(char_of TLV_MESSAGE_TYPE, [char_of GROUP_KEYED]), (char_of TLV_NONCE, usedNonce),
          (char_of TLV_RECIPIENT, base64urldecode P destination), (char_of TLV_KEYS, ek),
          (char_of TLV_KEY_IDS, ids), (char_of TLV_PAYLOAD, ciphertext)]"
      "h' = h1\<lparr>sentKeyId := keyId h1, keyEncryptionCount := keyEncryptionCount h1 + 1\<rparr>" "lg = []"
  | (unsent) w1 h1 own kid ciphertext usedKey usedNonce ks ids where
      "rotateKeyIfDue w h = (None, w1, h1)" "participantKeys h1 (ownHandle h1) = Some own"
      "symmetricEncryptMessage P w1 message (own (str_of_null (keyId h1))) None
         = (Returned (ciphertext, usedKey, usedNonce), w')"
      "sentKeyId h1 \<noteq> keyId h1"
      "(case previousKeyId h1 of
          Some p \<Rightarrow> if p \<noteq> [] then ([own (str_of_null (keyId h1)), own p],
                                      Some (str_of_null (keyId h1) @ p))
                    else ([own (str_of_null (keyId h1))], keyId h1)
        | None \<Rightarrow> ([own (str_of_null (keyId h1))], keyId h1)) = (ks, ids)"
      "encryptKeysFor P w' h1 ks usedNonce destination = (Returned [], [])"
      "keyId h1 = Some kid"
      "msg = signedMessage P h1
         [(char_of TLV_MESSAGE_TYPE, [char_of GROUP_KEYED]), (char_of TLV_NONCE, usedNonce),
          (char_of TLV_KEY_IDS, kid), (char_of TLV_PAYLOAD, ciphertext)]"
      "h' = h1\<lparr>keyEncryptionCount := keyEncryptionCount h1 + 1\<rparr>" "lg = []"
proof -
  obtain e1 w1 h1 where rot: "rotateKeyIfDue w h = (e1, w1, h1)"
    by (cases "rotateKeyIfDue w h")
  have e1: "e1 = None" using assms rot by (cases e1) (auto simp: encryptTo_def)
  obtain own where own: "participantKeys h1 (ownHandle h1) = Some own"
    using assms rot e1 by (cases "participantKeys h1 (ownHandle h1)") (auto simp: encryptTo_def)
  let ?sk = "own (str_of_null (keyId h1))"
  obtain r2 w2 where sym: "symmetricEncryptMessage P w1 message ?sk None = (r2, w2)"
    by (cases "symmetricEncryptMessage P w1 message ?sk None")
  obtain ciphertext usedKey usedNonce where r2: "r2 = Returned (ciphertext, usedKey, usedNonce)"
    using assms rot e1 own sym by (cases r2) (auto simp: encryptTo_def Let_def)
  note pre = rot[unfolded e1] own sym[unfolded r2]
  show ?thesis
  proof (cases "sentKeyId h1 = keyId h1")
    case True
    with assms pre
    have a: "assembleMessage P h1 destination GROUP_FOLLOWUP usedNonce ciphertext None (keyId h1)
               = (Returned msg, h')" and w: "w' = w2" and lg: "lg = []"
      by (auto simp: encryptTo_def Let_def split: prod.splits)
    show ?thesis
    proof (cases "keyId h1")
      case None
      with a show ?thesis by (simp add: assembleMessage_null truthy_def)
    next
      case (Some kid)
      with a have "msg = signedMessage P h1
         [(char_of TLV_MESSAGE_TYPE, [char_of GROUP_FOLLOWUP]), (char_of TLV_NONCE, usedNonce),
          (char_of TLV_KEY_IDS, kid), (char_of TLV_PAYLOAD, ciphertext)]"
        "h' = h1\<lparr>keyEncryptionCount := keyEncryptionCount h1 + 1\<rparr>"
        by (simp_all add: assembleMessage_lean[OF _ Some] truthy_def)
      with pre True Some w lg show ?thesis by (intro followup[of w1 h1 own ciphertext usedKey usedNonce kid]) auto
    qed
  next
    case False
    obtain ks ids where ki: "(case previousKeyId h1 of
          Some p \<Rightarrow> if p \<noteq> [] then ([?sk, own p], Some (str_of_null (keyId h1) @ p))
                    else ([?sk], keyId h1)
        | None \<Rightarrow> ([?sk], keyId h1)) = (ks, ids)"
      by (cases "case previousKeyId h1 of
          Some p \<Rightarrow> if p \<noteq> [] then ([?sk, own p], Some (str_of_null (keyId h1) @ p))
                    else ([?sk], keyId h1)
        | None \<Rightarrow> ([?sk], keyId h1)")
    obtain r3 lg3 where ek: "encryptKeysFor P w2 h1 ks usedNonce destination = (r3, lg3)"
      by (cases "encryptKeysFor P w2 h1 ks usedNonce destination")
    note ekl = encryptKeysFor_log[OF ek]
    obtain ek' where r3: "r3 = Returned ek'" "lg3 = []"
      using assms pre False ki ek ekl by (cases r3) (auto simp: encryptTo_def Let_def)
    from assms pre False ki ek r3
    have a: "assembleMessage P h1 destination GROUP_KEYED usedNonce ciphertext (Some ek') ids
               = (Returned msg, h')" and w: "w' = w2" and lg: "lg = []"
      by (auto simp: encryptTo_def Let_def split: prod.splits)
    show ?thesis
    proof (cases "ek' = []")
      case True
      show ?thesis
      proof (cases "keyId h1")
        case None
        with a True show ?thesis by (simp add: assembleMessage_null truthy_def)
      next
        case (Some kid)
        with a True have "msg = signedMessage P h1
           [(char_of TLV_MESSAGE_TYPE, [char_of GROUP_KEYED]), (char_of TLV_NONCE, usedNonce),
            (char_of TLV_KEY_IDS, kid), (char_of TLV_PAYLOAD, ciphertext)]"
          "h' = h1\<lparr>keyEncryptionCount := keyEncryptionCount h1 + 1\<rparr>"
          by (simp_all add: assembleMessage_lean[OF _ Some] truthy_def)
        with pre False ki ek r3 True Some w lg show ?thesis
          by (intro unsent[of w1 h1 own ciphertext usedKey usedNonce ks ids kid]) auto
      qed
    next
      case ne: False
      show ?thesis
      proof (cases ids)
        case None
        with a ne show ?thesis by (simp add: assembleMessage_keyed_null)
      next
        case (Some v)
        with a ne have "msg = signedMessage P h1
           [(char_of TLV_MESSAGE_TYPE, [char_of GROUP_KEYED]), (char_of TLV_NONCE, usedNonce),
            (char_of TLV_RECIPIENT, base64urldecode P destination), (char_of TLV_KEYS, ek'),
            (char_of TLV_KEY_IDS, v), (char_of TLV_PAYLOAD, ciphertext)]"
          "h' = h1\<lparr>sentKeyId := keyId h1, keyEncryptionCount := keyEncryptionCount h1 + 1\<rparr>"
          by (simp_all add: assembleMessage_keyed)
        with pre False ki ek r3 ne Some w lg show ?thesis
          by (intro keyed[of w1 h1 own ciphertext usedKey usedNonce ks v ek']) auto
      qed
    qed
  qed
qed

subsection \<open>The scenario of the spec\<close>

lemma encodeKeyId_abce: "encodeKeyId 24930 25445 = ''abce''"
  by (simp add: encodeKeyId_def a32_to_str_def char_of_def bit_iff_odd)

lemma getRandomValues_world0: "getRandomValues n world0 = (replicate n CHR ''k'', world0)"
proof -
  have w: "world0 = world0\<lparr>entropy := (\<lambda>i. CHR ''k'')\<rparr>" by (simp add: world0_def)
  show ?thesis by (subst w, subst getRandomValues_const) (simp add: world0_def)
qed

lemma replicate_12: "replicate 12 c = [c, c, c, c, c, c, c, c, c, c, c, c]"
  by (simp add: numeral_eq_Suc)

lemma replicate_16: "replicate 16 c = [c, c, c, c, c, c, c, c, c, c, c, c, c, c, c, c]"
  by (simp add: numeral_eq_Suc)

lemma world0_clock: "world0\<lparr>clock := clock world0\<rparr> = world0"
  by simp

lemma dateStampNow_world0: "dateStampNow world0 = 24930"
  by (simp add: dateStampNow_def world0_def)

lemma toy_fields:
  "AES_CTR_encrypt toy = (\<lambda>d k n. d)" "AES_CTR_decrypt toy = (\<lambda>d k n. d)"
  "AES_CBC_encrypt toy = (\<lambda>d k iv. d)" "AES_CBC_decrypt toy = (\<lambda>d k iv. d)"
  "SHA256 toy = (\<lambda>s. s)" "scalarMult toy = (\<lambda>a b. [])"
  "sign_detached toy = (\<lambda>m k. ''sig'')" "sign_detached_verify toy = (\<lambda>m s k. s = ''sig'')"
  "getPubKeyFromPrivKey toy = (\<lambda>k. k)"
  "base64urlencode toy = (\<lambda>s. s)" "base64urldecode toy = (\<lambda>s. s)"
  "utf8_encode toy = Some" "utf8_decode toy = Some"
  by (simp_all add: toy_def)

lemma world0_fields:
  "cache_pubCu25519 world0 = [''A'' \<mapsto> ''pa'', ''B'' \<mapsto> ''pb'']"
  "cache_pubEd25519 world0 = [''A'' \<mapsto> ''ea'', ''B'' \<mapsto> ''eb'']"
  by (simp_all add: world0_def)

lemmas encrypt_eval = encryptTo_def rotateKeyIfDue_def updateSenderKey_def
  symmetricEncryptMessage_def encryptKeysFor_def computeSymmetricKey_def
  getRandomValues_world0 dateStampNow_world0 splitKeyId_abcd encodeKeyId_abce
  str_of_null_def str_of_undefined_def Let_def toy_fields world0_fields world0_clock
  assembleMessage_keyed assembleMessage_lean truthy_def replicate_12 replicate_16

lemma alice2_fields:
  "alice2 = \<lparr>ownHandle = ''A'', privCu25519 = ''ca'', privEd25519 = ''sa'', pubEd25519 = ''ea'',
     rotateKeyEvery = 2, sendKeyEveryReceived = 24, keyEncryptionCount = 0,
     keyId = Some ''abcd'', previousKeyId = None, sentKeyId = None, participants = [],
     participantKeys = [''A'' \<mapsto> [''abcd'' \<mapsto> ''0123456789abcdef'']]\<rparr>"
  by (simp add: alice2_def alice_def ProtocolHandler_def or_default_def Let_def)

lemma alice2_first:
  "encryptTo toy world0 ''hello'' ''B'' alice2 =
     (Returned (signedMessage toy alice2
        [(char_of TLV_MESSAGE_TYPE, [char_of GROUP_KEYED]), (char_of TLV_NONCE, ''kkkkkkkkkkkk''),
         (char_of TLV_RECIPIENT, ''B''), (char_of TLV_KEYS, ''0123456789abcdef''),
         (char_of TLV_KEY_IDS, ''abcd''), (char_of TLV_PAYLOAD, ''hello'')]),
      world0, alice2\<lparr>sentKeyId := Some ''abcd'', keyEncryptionCount := Suc 0\<rparr>, [])"
  by (simp add: encrypt_eval alice2_fields signedMessage_def signMessage_def)

lemma alice2_second:
  "encryptTo toy world0 ''world'' ''B'' (alice2\<lparr>sentKeyId := Some ''abcd'', keyEncryptionCount := Suc 0\<rparr>) =
     (Returned (signedMessage toy alice2
        [(char_of TLV_MESSAGE_TYPE, [char_of GROUP_FOLLOWUP]), (char_of TLV_NONCE, ''kkkkkkkkkkkk''),
         (char_of TLV_KEY_IDS, ''abcd''), (char_of TLV_PAYLOAD, ''world'')]),
      world0, alice2\<lparr>sentKeyId := Some ''abcd'', keyEncryptionCount := 2\<rparr>, [])"
  by (simp add: encrypt_eval alice2_fields signedMessage_def signMessage_def)

lemma alice2_third:
  "encryptTo toy world0 ''!'' ''B'' (alice2\<lparr>sentKeyId := Some ''abcd'', keyEncryptionCount := 2\<rparr>) =
     (Returned (signedMessage toy alice2
        [(char_of TLV_MESSAGE_TYPE, [char_of GROUP_KEYED]), (char_of TLV_NONCE, ''kkkkkkkkkkkk''),
         (char_of TLV_RECIPIENT, ''B''), (char_of TLV_KEYS, ''kkkkkkkkkkkkkkkk0123456789abcdef''),
         (char_of TLV_KEY_IDS, ''abceabcd''), (char_of TLV_PAYLOAD, ''!'')]),
      world0,
      alice2\<lparr>keyId := Some ''abce'', previousKeyId := Some ''abcd'', sentKeyId := Some ''abce'',
             keyEncryptionCount := 1,
             participantKeys := [''A'' \<mapsto> [''abcd'' \<mapsto> ''0123456789abcdef'',
                                              ''abce'' \<mapsto> ''kkkkkkkkkkkkkkkk'']]\<rparr>, [])"
  by (simp add: encrypt_eval alice2_fields signedMessage_def signMessage_def)

lemma alice2_rotation:
  "updateSenderKey world0 (alice2\<lparr>sentKeyId := Some ''abcd'', keyEncryptionCount := 2\<rparr>) =
     (None, world0,
      alice2\<lparr>keyId := Some ''abce'', previousKeyId := Some ''abcd'', sentKeyId := Some ''abcd'',
             keyEncryptionCount := 0,
             participantKeys := [''A'' \<mapsto> [''abcd'' \<mapsto> ''0123456789abcdef'',
                                              ''abce'' \<mapsto> ''kkkkkkkkkkkkkkkk'']]\<rparr>)"
  by (simp add: encrypt_eval alice2_fields)

lemma alice2_two_calls:
  "encryptAll toy [(clock world0, ''hello'', ''B''), (clock world0, ''world'', ''B'')] world0 alice2 =
     Some ([signedMessage toy alice2
              [(char_of TLV_MESSAGE_TYPE, [char_of GROUP_KEYED]), (char_of TLV_NONCE, ''kkkkkkkkkkkk''),
               (char_of TLV_RECIPIENT, ''B''), (char_of TLV_KEYS, ''0123456789abcdef''),
               (char_of TLV_KEY_IDS, ''abcd''), (char_of TLV_PAYLOAD, ''hello'')],
            signedMessage toy alice2
              [(char_of TLV_MESSAGE_TYPE, [char_of GROUP_FOLLOWUP]), (char_of TLV_NONCE, ''kkkkkkkkkkkk''),
               (char_of TLV_KEY_IDS, ''abcd''), (char_of TLV_PAYLOAD, ''world'')]],
           world0, alice2\<lparr>sentKeyId := Some ''abcd'', keyEncryptionCount := 2\<rparr>)"
  by (simp add: alice2_first alice2_second)

subsection \<open>Rotating the sender key\<close>

lemma rotateKeyIfDue_not_due:
  "keyEncryptionCount h < rotateKeyEvery h \<Longrightarrow> rotateKeyIfDue w h = (None, w, h)"
  by (simp add: rotateKeyIfDue_def)

lemma rotateKeyIfDue_due:
  "rotateKeyEvery h \<le> keyEncryptionCount h \<Longrightarrow> rotateKeyIfDue w h = updateSenderKey w h"
  by (simp add: rotateKeyIfDue_def)

lemma encryptTo_steady:
  assumes "encryptTo P w m d h = (Returned msg, w', h', lg)"
    and "keyEncryptionCount h < rotateKeyEvery h"
  shows "keyId h' = keyId h \<and> previousKeyId h' = previousKeyId h
       \<and> participantKeys h' = participantKeys h \<and> ownHandle h' = ownHandle h
       \<and> privEd25519 h' = privEd25519 h \<and> pubEd25519 h' = pubEd25519 h
       \<and> rotateKeyEvery h' = rotateKeyEvery h
       \<and> keyEncryptionCount h' = keyEncryptionCount h + 1
       \<and> (sentKeyId h' = sentKeyId h \<or> sentKeyId h' = keyId h)"
  using assms(1)
  by (cases rule: encryptTo_Returned) (auto simp: rotateKeyIfDue_not_due[OF assms(2)])

lemma encryptAll_steady:
  "encryptAll P calls w h = Some (msgs, w', h') \<Longrightarrow>
   keyEncryptionCount h + length calls \<le> rotateKeyEvery h \<Longrightarrow>
   keyId h' = keyId h \<and> previousKeyId h' = previousKeyId h
     \<and> participantKeys h' = participantKeys h \<and> ownHandle h' = ownHandle h
     \<and> privEd25519 h' = privEd25519 h \<and> pubEd25519 h' = pubEd25519 h
     \<and> rotateKeyEvery h' = rotateKeyEvery h
     \<and> keyEncryptionCount h' = keyEncryptionCount h + length calls
     \<and> (sentKeyId h' = sentKeyId h \<or> sentKeyId h' = keyId h)"
proof (induction calls arbitrary: w h msgs)
  case Nil
  then show ?case by simp
next
  case (Cons c calls)
  obtain t m d where c: "c = (t, m, d)" by (cases c)
  obtain r w1 h1 lg where e: "encryptTo P (w\<lparr>clock := t\<rparr>) m d h = (r, w1, h1, lg)"
    by (cases "encryptTo P (w\<lparr>clock := t\<rparr>) m d h")
  from Cons.prems(1) c e obtain msg where r: "r = Returned msg"
    by (cases r) auto
  from Cons.prems(1) c e r obtain ms where rest: "encryptAll P calls w1 h1 = Some (ms, w', h')"
    by (auto split: option.splits)
  from Cons.prems(2) have lt: "keyEncryptionCount h < rotateKeyEvery h" by simp
  note s = encryptTo_steady[OF e[unfolded r] lt]
  from s Cons.prems(2) have "keyEncryptionCount h1 + length calls \<le> rotateKeyEvery h1" by simp
  from Cons.IH[OF rest this] s show ?case by auto
qed

lemma updateSenderKey_None:
  assumes "updateSenderKey w h = (None, w1, h1)"
  shows "\<exists>own k1. participantKeys h (ownHandle h) = Some own \<and> keyId h1 = Some k1
       \<and> h1 = h\<lparr>previousKeyId := (if truthy (keyId h) then keyId h else previousKeyId h),
                keyId := Some k1,
                participantKeys := (participantKeys h)
                   (ownHandle h \<mapsto> own(k1 \<mapsto> fst (getRandomValues SECRET_KEY_SIZE w))),
                keyEncryptionCount := 0\<rparr>
       \<and> w1 = snd (getRandomValues SECRET_KEY_SIZE w)"
  using assms
  by (auto simp: updateSenderKey_def Let_def truthy_def split: option.splits prod.splits if_splits)

lemma splitKeyId_fst_bound: "fst (splitKeyId k) < 65536"
proof -
  have "unat (str_to_a32_first k) < 2 ^ 32" using unsigned_less[of "str_to_a32_first k"] by simp
  then have "unat (str_to_a32_first k) div 2 ^ 16 < 2 ^ 16" by simp
  then show ?thesis by (simp add: splitKeyId_def Let_def drop_bit_eq_div unat_div)
qed

lemma new_keyId_differs:
  assumes "dateStampNow w < 65536" "keyId h = Some k0" "k0 \<noteq> []"
  shows "keyId (snd (snd (updateSenderKey w h))) \<noteq> Some k0"
proof
  assume eq: "keyId (snd (snd (updateSenderKey w h))) = Some k0"
  obtain d0 c0 where s: "splitKeyId k0 = (d0, c0)" by (cases "splitKeyId k0")
  have b: "d0 < 65536" "c0 < 65536"
    using splitKeyId_fst_bound[of k0] splitKeyId_snd_bound[of k0] s by simp_all
  have cur: "currentKeyId h = Some (d0, c0)" using assms s by (simp add: currentKeyId_def)
  show False
  proof (cases "dateStampNow w = d0")
    case False
    with eq cur have "encodeKeyId (dateStampNow w) 0 = k0" by (simp add: updateSenderKey_keyId)
    then have "splitKeyId (encodeKeyId (dateStampNow w) 0) = (d0, c0)" using s by simp
    with False assms(1) show False by (simp add: splitKeyId_encodeKeyId)
  next
    case True
    with eq cur have "encodeKeyId d0 ((c0 + 1) mod 65536) = k0"
      by (simp add: updateSenderKey_keyId and_ffff_nat)
    then have "splitKeyId (encodeKeyId d0 ((c0 + 1) mod 65536)) = (d0, c0)" using s by simp
    with b have "(c0 + 1) mod 65536 = c0" by (simp add: splitKeyId_encodeKeyId)
    with b(2) show False
    proof (cases "c0 + 1 < 65536")
      case True
      with \<open>(c0 + 1) mod 65536 = c0\<close> show False by simp
    next
      case False
      with b(2) have "c0 = 65535" by simp
      with \<open>(c0 + 1) mod 65536 = c0\<close> show False by simp
    qed
  qed
qed


lemma encryptKeysFor_Returned:
  assumes "encryptKeysFor P w h ks n d = (Returned ek, lg)"
  shows "\<exists>symKey. ek = AES_CBC_encrypt P (concat (map str_of_undefined ks)) (take KEY_SIZE symKey)
                         (take IV_SIZE (SHA256 P (base64urldecode P d @ n)))
          \<and> computeSymmetricKey P w h d = (Returned symKey, []) \<and> ks \<noteq> []"
proof -
  obtain r1 lg1 where c: "computeSymmetricKey P w h d = (r1, lg1)"
    by (cases "computeSymmetricKey P w h d")
  from computeSymmetricKey_log[OF c] assms c show ?thesis
    by (cases r1) (auto simp: encryptKeysFor_def Let_def split: if_splits)
qed

lemma signedMessage_cong:
  "privEd25519 h = privEd25519 h' \<Longrightarrow> pubEd25519 h = pubEd25519 h' \<Longrightarrow>
   signedMessage P h rs = signedMessage P h' rs"
  by (simp add: signedMessage_def)

lemma length_getRandomValues: "length (fst (getRandomValues n w)) = n"
  by (simp add: getRandomValues_def)

text \<open>
  Claim C3, as stated, fails in one point: the rotation does not clear \<open>_sentKeyId\<close>.
  In the scenario of the spec (threshold 2) the third call rotates; \<open>_sentKeyId\<close> still
  holds the old key id \<open>abcd\<close> after the rotation, and the new key id \<open>abce\<close> after the
  call. It is never \<open>null\<close>.
\<close>

theorem rotation_keeps_sentKeyId_counterexample:
  "encryptAll toy [(clock world0, ''hello'', ''B''), (clock world0, ''world'', ''B'')] world0 alice2 =
     Some ([signedMessage toy alice2
              [(char_of TLV_MESSAGE_TYPE, [char_of GROUP_KEYED]), (char_of TLV_NONCE, ''kkkkkkkkkkkk''),
               (char_of TLV_RECIPIENT, ''B''), (char_of TLV_KEYS, ''0123456789abcdef''),
               (char_of TLV_KEY_IDS, ''abcd''), (char_of TLV_PAYLOAD, ''hello'')],
            signedMessage toy alice2
              [(char_of TLV_MESSAGE_TYPE, [char_of GROUP_FOLLOWUP]), (char_of TLV_NONCE, ''kkkkkkkkkkkk''),
               (char_of TLV_KEY_IDS, ''abcd''), (char_of TLV_PAYLOAD, ''world'')]],
           world0, alice2\<lparr>sentKeyId := Some ''abcd'', keyEncryptionCount := 2\<rparr>)
   \<and> rotateKeyEvery alice2 = 2
   \<and> sentKeyId (snd (snd (rotateKeyIfDue world0
          (alice2\<lparr>sentKeyId := Some ''abcd'', keyEncryptionCount := 2\<rparr>)))) = Some ''abcd''
   \<and> sentKeyId (fst (snd (snd (encryptTo toy world0 ''!'' ''B''
          (alice2\<lparr>sentKeyId := Some ''abcd'', keyEncryptionCount := 2\<rparr>))))) = Some ''abce''"
  unfolding alice2_two_calls alice2_third
  by (simp add: rotateKeyIfDue_def alice2_rotation) (simp add: alice2_fields)

text \<open>
  Claim C3, amended. A handler holds a sender key under the key id \<open>k0\<close>, has a zero
  counter and has sent no key or that key. After exactly \<open>rotateKeyEvery\<close> successful
  \<open>encryptTo\<close> calls, the next call that returns a message has rotated before
  encrypting: the handler has a new key id, different from \<open>k0\<close> (the day stamp being a
  16-bit value); a 16-byte key drawn from the random number generator is stored under the
  own handle and the new key id; \<open>k0\<close> is the previous key id; the counter was reset and
  counts this one message. The rotation leaves \<open>_sentKeyId\<close> as it was; since that is
  not the new key id, the message is a keyed one, whose KEY_IDS record holds the new key
  id followed by \<open>k0\<close>, and \<open>_sentKeyId\<close> is the new key id after the call. The key
  wrapping cipher is taken to give a non-empty output on a non-empty input.
\<close>

theorem rotation_after_threshold:
  assumes "keyEncryptionCount h = 0"
    and "keyId h = Some k0" and "k0 \<noteq> []"
    and "sentKeyId h = None \<or> sentKeyId h = Some k0"
    and "encryptAll P calls w h = Some (msgs, w1, h1)"
    and "length calls = rotateKeyEvery h"
    and "dateStampNow w2 < 65536"
    and "\<forall>x k iv. x \<noteq> [] \<longrightarrow> AES_CBC_encrypt P x k iv \<noteq> []"
    and "encryptTo P w2 message destination h1 = (Returned msg, w3, h3, lg)"
  shows "\<exists>k1 usedNonce ek ciphertext.
      keyId h3 = Some k1 \<and> k1 \<noteq> k0 \<and> previousKeyId h3 = Some k0
    \<and> boundKey h3 (ownHandle h) k1 = Some (fst (getRandomValues SECRET_KEY_SIZE w2))
    \<and> length (fst (getRandomValues SECRET_KEY_SIZE w2)) = 16
    \<and> keyEncryptionCount h3 = 1
    \<and> sentKeyId (snd (snd (rotateKeyIfDue w2 h1))) = sentKeyId h1
    \<and> sentKeyId h3 = Some k1
    \<and> msg = signedMessage P h
        [(char_of TLV_MESSAGE_TYPE, [char_of GROUP_KEYED]), (char_of TLV_NONCE, usedNonce),
         (char_of TLV_RECIPIENT, base64urldecode P destination), (char_of TLV_KEYS, ek),
         (char_of TLV_KEY_IDS, k1 @ k0), (char_of TLV_PAYLOAD, ciphertext)]"
proof -
  from assms(1,6) have "keyEncryptionCount h + length calls \<le> rotateKeyEvery h" by simp
  note st = encryptAll_steady[OF assms(5) this]
  from st assms(1,2,4,6) have h1: "keyId h1 = Some k0" "ownHandle h1 = ownHandle h"
    "rotateKeyEvery h1 \<le> keyEncryptionCount h1" "sentKeyId h1 = None \<or> sentKeyId h1 = Some k0"
    "privEd25519 h1 = privEd25519 h" "pubEd25519 h1 = pubEd25519 h"
    by auto
  note rot = rotateKeyIfDue_due[OF h1(3), of w2]
  have diff: "keyId (snd (snd (updateSenderKey w2 h1))) \<noteq> Some k0"
    by (rule new_keyId_differs[OF assms(7) h1(1) assms(3)])
  have key16: "length (fst (getRandomValues SECRET_KEY_SIZE w2)) = 16"
    by (rule length_getRandomValues)
  let ?new = "fst (getRandomValues SECRET_KEY_SIZE w2)"
  have rotated: "\<exists>own k1. participantKeys h1 (ownHandle h1) = Some own \<and> k1 \<noteq> k0
       \<and> hr = h1\<lparr>previousKeyId := Some k0, keyId := Some k1,
                participantKeys := (participantKeys h1)(ownHandle h1 \<mapsto> own(k1 \<mapsto> ?new)),
                keyEncryptionCount := 0\<rparr>"
    if "rotateKeyIfDue w2 h1 = (None, wr, hr)" for wr hr
  proof -
    from that rot have u: "updateSenderKey w2 h1 = (None, wr, hr)" by simp
    from updateSenderKey_None[OF u] diff u h1(1) assms(3) show ?thesis
      by (auto simp: truthy_def)
  qed
  from assms(9) show ?thesis
  proof (cases rule: encryptTo_Returned)
    case (followup wr hr own kid ciphertext usedKey usedNonce)
    from rotated[OF followup(1)] followup(4) h1(4) show ?thesis by auto
  next
    case (keyed wr hr own ciphertext usedKey usedNonce ks ids ek)
    from rotated[OF keyed(1)] obtain own0 k1 where r: "participantKeys h1 (ownHandle h1) = Some own0"
      "k1 \<noteq> k0" "hr = h1\<lparr>previousKeyId := Some k0, keyId := Some k1,
                participantKeys := (participantKeys h1)(ownHandle h1 \<mapsto> own0(k1 \<mapsto> ?new)),
                keyEncryptionCount := 0\<rparr>" by blast
    from keyed(5) r(3) assms(3) have ids: "ids = k1 @ k0" by (simp add: str_of_null_def)
    have sm: "signedMessage P hr rs = signedMessage P h rs" for rs
      by (rule signedMessage_cong) (simp_all add: r(3) h1)
    have m: "msg = signedMessage P h
        [(char_of TLV_MESSAGE_TYPE, [char_of GROUP_KEYED]), (char_of TLV_NONCE, usedNonce),
         (char_of TLV_RECIPIENT, base64urldecode P destination), (char_of TLV_KEYS, ek),
         (char_of TLV_KEY_IDS, k1 @ k0), (char_of TLV_PAYLOAD, ciphertext)]"
      unfolding keyed(8) ids by (rule sm)
    have "keyId h3 = Some k1 \<and> k1 \<noteq> k0 \<and> previousKeyId h3 = Some k0
      \<and> boundKey h3 (ownHandle h) k1 = Some ?new \<and> length ?new = 16
      \<and> keyEncryptionCount h3 = 1
      \<and> sentKeyId (snd (snd (rotateKeyIfDue w2 h1))) = sentKeyId h1
      \<and> sentKeyId h3 = Some k1"
      using keyed(9) r key16 h1(2) keyed(1) by (simp add: boundKey_def)
    with m show ?thesis by blast
  next
    case (unsent wr hr own kid ciphertext usedKey usedNonce ks ids)
    from rotated[OF unsent(1)] obtain own0 k1 where r: "participantKeys h1 (ownHandle h1) = Some own0"
      "k1 \<noteq> k0" "hr = h1\<lparr>previousKeyId := Some k0, keyId := Some k1,
                participantKeys := (participantKeys h1)(ownHandle h1 \<mapsto> own0(k1 \<mapsto> ?new)),
                keyEncryptionCount := 0\<rparr>" by blast
    from unsent(2) r(3) have own: "own = own0(k1 \<mapsto> ?new)" by simp
    from unsent(5) r(3) assms(3) own have ks: "ks = [Some ?new, own k0]"
      by (auto simp: str_of_null_def)
    from key16 have "?new \<noteq> []" by auto
    then have ne: "concat (map str_of_undefined ks) \<noteq> []" by (simp add: ks str_of_undefined_def)
    from encryptKeysFor_Returned[OF unsent(6)] obtain symKey where
      "[] = AES_CBC_encrypt P (concat (map str_of_undefined ks)) (take KEY_SIZE symKey)
              (take IV_SIZE (SHA256 P (base64urldecode P destination @ usedNonce)))" by blast
    with assms(8) ne have False by metis
    then show ?thesis ..
  qed
qed


theorem rotation_after_threshold_witness:
  "keyEncryptionCount alice2 = 0 \<and> keyId alice2 = Some ''abcd'' \<and> sentKeyId alice2 = None
   \<and> length [(clock world0, ''hello'', ''B''), (clock world0, ''world'', ''B'')] = rotateKeyEvery alice2
   \<and> dateStampNow world0 < 65536
   \<and> (\<exists>k1 usedNonce ek ciphertext.
        k1 \<noteq> ''abcd''
      \<and> boundKey (alice2\<lparr>keyId := Some ''abce'', previousKeyId := Some ''abcd'',
                          sentKeyId := Some ''abce'', keyEncryptionCount := 1,
                          participantKeys := [''A'' \<mapsto> [''abcd'' \<mapsto> ''0123456789abcdef'',
                                                           ''abce'' \<mapsto> ''kkkkkkkkkkkkkkkk'']]\<rparr>)
           (ownHandle alice2) k1 = Some (fst (getRandomValues SECRET_KEY_SIZE world0))
      \<and> signedMessage toy alice2
          [(char_of TLV_MESSAGE_TYPE, [char_of GROUP_KEYED]), (char_of TLV_NONCE, ''kkkkkkkkkkkk''),
           (char_of TLV_RECIPIENT, ''B''), (char_of TLV_KEYS, ''kkkkkkkkkkkkkkkk0123456789abcdef''),
           (char_of TLV_KEY_IDS, ''abceabcd''), (char_of TLV_PAYLOAD, ''!'')]
        = signedMessage toy alice2
          [(char_of TLV_MESSAGE_TYPE, [char_of GROUP_KEYED]), (char_of TLV_NONCE, usedNonce),
           (char_of TLV_RECIPIENT, base64urldecode toy ''B''), (char_of TLV_KEYS, ek),
           (char_of TLV_KEY_IDS, k1 @ ''abcd''), (char_of TLV_PAYLOAD, ciphertext)])"
proof -
  have a1: "keyEncryptionCount alice2 = 0" and a2: "keyId alice2 = Some ''abcd''"
    and a4: "sentKeyId alice2 = None \<or> sentKeyId alice2 = Some ''abcd''"
    and a6: "length [(clock world0, ''hello'', ''B''), (clock world0, ''world'', ''B'')]
               = rotateKeyEvery alice2"
    by (simp_all add: alice2_fields)
  have a3: "''abcd'' \<noteq> []" by simp
  have a7: "dateStampNow world0 < 65536" by (simp add: dateStampNow_world0)
  have a8: "\<forall>x k iv. x \<noteq> [] \<longrightarrow> AES_CBC_encrypt toy x k iv \<noteq> []" by (simp add: toy_fields)
  from rotation_after_threshold[OF a1 a2 a3 a4 alice2_two_calls a6 a7 a8 alice2_third]
  obtain k1 usedNonce ek ciphertext where
    "k1 \<noteq> ''abcd''"
    "boundKey (alice2\<lparr>keyId := Some ''abce'', previousKeyId := Some ''abcd'',
                          sentKeyId := Some ''abce'', keyEncryptionCount := 1,
                          participantKeys := [''A'' \<mapsto> [''abcd'' \<mapsto> ''0123456789abcdef'',
                                                           ''abce'' \<mapsto> ''kkkkkkkkkkkkkkkk'']]\<rparr>)
           (ownHandle alice2) k1 = Some (fst (getRandomValues SECRET_KEY_SIZE world0))"
    "signedMessage toy alice2
          [(char_of TLV_MESSAGE_TYPE, [char_of GROUP_KEYED]), (char_of TLV_NONCE, ''kkkkkkkkkkkk''),
           (char_of TLV_RECIPIENT, ''B''), (char_of TLV_KEYS, ''kkkkkkkkkkkkkkkk0123456789abcdef''),
           (char_of TLV_KEY_IDS, ''abceabcd''), (char_of TLV_PAYLOAD, ''!'')]
        = signedMessage toy alice2
          [(char_of TLV_MESSAGE_TYPE, [char_of GROUP_KEYED]), (char_of TLV_NONCE, usedNonce),
           (char_of TLV_RECIPIENT, base64urldecode toy ''B''), (char_of TLV_KEYS, ek),
           (char_of TLV_KEY_IDS, k1 @ ''abcd''), (char_of TLV_PAYLOAD, ciphertext)]"
    by blast
  then show ?thesis using a1 a2 a6 a7 by (simp add: alice2_fields) blast
qed

subsection \<open>Encrypting and decrypting again\<close>

lemma of_char_char_of_small: "n < 256 \<Longrightarrow> of_char (char_of (n::nat)) = n"
  by (simp add: of_char_of)

lemma splitKeyIds_one: "length k = 4 \<Longrightarrow> splitKeyIds k = [k]"
  by (subst splitKeyIds.simps) (auto simp: splitKeyIds_Nil)

lemma splitKeyIds_two: "length k = 4 \<Longrightarrow> length p = 4 \<Longrightarrow> splitKeyIds (k @ p) = [k, p]"
  by (subst splitKeyIds.simps) (auto simp: splitKeyIds_one)

lemma splitKeys_one: "length k = 16 \<Longrightarrow> splitKeys k = [k]"
  by (subst splitKeys.simps) (auto simp: splitKeys_Nil)

lemma splitKeys_two: "length k = 16 \<Longrightarrow> length p = 16 \<Longrightarrow> splitKeys (k @ p) = [k, p]"
  by (subst splitKeys.simps) (auto simp: splitKeys_one)

lemma parse_signedMessage_followup:
  assumes "length sg < 65536" "length n < 65536" "length kid = 4" "length c < 65536"
    and "t < 256"
    and "sg = signMessage P (encodeRecords
           [(char_of TLV_MESSAGE_TYPE, [char_of t]), (char_of TLV_NONCE, n),
            (char_of TLV_KEY_IDS, kid), (char_of TLV_PAYLOAD, c)]) (privEd25519 h) (pubEd25519 h)"
  shows "parseMessageContent P (signedMessage P h
           [(char_of TLV_MESSAGE_TYPE, [char_of t]), (char_of TLV_NONCE, n),
            (char_of TLV_KEY_IDS, kid), (char_of TLV_PAYLOAD, c)]) =
         (Returned \<lparr>recipients = [], keys = [], keyIds = [kid], protocolVersion = Num 0,
            signature = Some sg,
            signedContent = Some (encodeRecords
               [(char_of TLV_MESSAGE_TYPE, [char_of t]), (char_of TLV_NONCE, n),
                (char_of TLV_KEY_IDS, kid), (char_of TLV_PAYLOAD, c)]),
            type = Some (Num t), nonce = Some n, payload = Some c, undefined_property = None\<rparr>, [])"
  using assms(1-5) unfolding signedMessage_def assms(6)[symmetric]
  by (simp add: parseMessageContent_def encodeRecords_Cons[of _ _ "_ # _"] parseRecords_step
      storeRecord_def charCodeAt0_def of_char_char_of_small splitKeyIds_one)
     (simp add: encodeRecords_Cons encodeRecords_Nil parseRecords_step parseRecords_last
      storeRecord_def charCodeAt0_def of_char_char_of_small splitKeyIds_one)


lemma parse_signedMessage_keyed:
  assumes "length sg < 65536" "length n < 65536" "length rc < 65536" "length ek < 65536"
    "length ids < 65536" "length c < 65536"
    and "t < 256"
    and "sg = signMessage P (encodeRecords
           [(char_of TLV_MESSAGE_TYPE, [char_of t]), (char_of TLV_NONCE, n),
            (char_of TLV_RECIPIENT, rc), (char_of TLV_KEYS, ek),
            (char_of TLV_KEY_IDS, ids), (char_of TLV_PAYLOAD, c)]) (privEd25519 h) (pubEd25519 h)"
  shows "parseMessageContent P (signedMessage P h
           [(char_of TLV_MESSAGE_TYPE, [char_of t]), (char_of TLV_NONCE, n),
            (char_of TLV_RECIPIENT, rc), (char_of TLV_KEYS, ek),
            (char_of TLV_KEY_IDS, ids), (char_of TLV_PAYLOAD, c)]) =
         (Returned \<lparr>recipients = [base64urlencode P rc], keys = [ek], keyIds = splitKeyIds ids,
            protocolVersion = Num 0, signature = Some sg,
            signedContent = Some (encodeRecords
               [(char_of TLV_MESSAGE_TYPE, [char_of t]), (char_of TLV_NONCE, n),
                (char_of TLV_RECIPIENT, rc), (char_of TLV_KEYS, ek),
                (char_of TLV_KEY_IDS, ids), (char_of TLV_PAYLOAD, c)]),
            type = Some (Num t), nonce = Some n, payload = Some c, undefined_property = None\<rparr>, [])"
  using assms(1-7) unfolding signedMessage_def assms(8)[symmetric]
  by (simp add: parseMessageContent_def encodeRecords_Cons[of _ _ "_ # _"] parseRecords_step
      storeRecord_def charCodeAt0_def of_char_char_of_small)
     (simp add: encodeRecords_Cons encodeRecords_Nil parseRecords_step parseRecords_last
      storeRecord_def charCodeAt0_def of_char_char_of_small)

text \<open>Decrypting the payload with the key and nonce it was encrypted with.\<close>

lemma decryptPayload_inverse:
  assumes "\<forall>x k n. AES_CTR_decrypt P (AES_CTR_encrypt P x k n) k n = x"
    and "utf8_decode P clear = Some plain" and "length n = 12"
    and "payload pm = Some (AES_CTR_encrypt P clear k n)" "nonce pm = Some n"
  shows "decryptPayload P pm sender (Some k) =
           (Returned \<lparr>msg_sender = sender, msg_type = type pm, msg_payload = plain\<rparr>, [])"
  using assms by (simp add: decryptPayload_def symmetricDecryptMessage_def)

text \<open>Unwrapping the keys with the key encryption key and vector they were wrapped with.\<close>

lemma decryptKeysFor_inverse:
  assumes "\<forall>x k iv. AES_CBC_decrypt P (AES_CBC_encrypt P x k iv) k iv = x"
    and "computeSymmetricKey P w h other = (Returned symKey, [])"
    and "(if own then Some other else Some (ownHandle h)) = Some receiver"
    and "length clear mod 16 = 0"
  shows "decryptKeysFor P w h
           (AES_CBC_encrypt P clear (take KEY_SIZE symKey)
              (take IV_SIZE (SHA256 P (base64urldecode P receiver @ n))))
           (Some n) (Some other) own = (Returned (splitKeys clear), [])"
  using assms by (simp add: decryptKeysFor_def Let_def str_of_undefined_def split: if_splits)


lemma decryptFrom_parsed:
  assumes "parseMessageContent P msg = (Returned pm, [])" "protocolVersion pm = Num 0"
    and "verifyMessage P (signedContent pm) (signature pm) (cache_pubEd25519 w sender) = Returned True"
    and "getSenderKey P w pm sender h = (Returned (Some k), h', [])"
    and "decryptPayload P pm sender (Some k) = (Returned m, [])"
  shows "decryptFrom P w msg sender h = (Returned m, h', [])"
  using assms by (simp add: decryptFrom_def)

lemma cacheSenderKeys_one:
  assumes "\<forall>v. c k = Some v \<longrightarrow> v \<noteq> [] \<longrightarrow> v = key"
  shows "cacheSenderKeys [k] [key] 0 c = (True, c(k \<mapsto> key))"
  using assms
  by (subst cacheSenderKeys.simps, subst cacheSenderKeys.simps)
     (auto simp: Let_def nth_opt_def str_of_undefined_def truthy_def split: option.splits)

lemma cacheSenderKeys_two:
  assumes "\<forall>v. c k = Some v \<longrightarrow> v \<noteq> [] \<longrightarrow> v = key"
    and "\<forall>v. c p = Some v \<longrightarrow> v \<noteq> [] \<longrightarrow> v = kp"
    and "p = k \<longrightarrow> kp = key"
  shows "cacheSenderKeys [k, p] [key, kp] 0 c = (True, c(k \<mapsto> key, p \<mapsto> kp))"
  using assms
  by (subst cacheSenderKeys.simps, subst cacheSenderKeys.simps, subst cacheSenderKeys.simps)
     (auto simp: Let_def nth_opt_def str_of_undefined_def truthy_def split: option.splits)

lemma getSenderKey_cached:
  assumes "keys pm = []" "keyIds pm = [k]" "participantKeys h sender = Some c" "c k = Some key"
    "key \<noteq> []"
  shows "getSenderKey P w pm sender h = (Returned (Some key), h, [])"
  using assms by (simp add: getSenderKey_def Let_def nth_opt_def str_of_undefined_def truthy_def)

lemma getSenderKey_unwrapped:
  assumes "keys pm = [ek]"
    and "decryptKeysFor P w h ek (nonce pm)
           (if sender = ownHandle h then nth_opt (recipients pm) 0 else Some sender)
           (sender = ownHandle h) = (Returned dks, [])"
    and "cacheSenderKeys (keyIds pm) dks 0
           (case participantKeys h sender of None \<Rightarrow> Map.empty | Some c \<Rightarrow> c) = (True, c')"
    and "dks \<noteq> []"
  shows "\<exists>h'. getSenderKey P w pm sender h = (Returned (Some (dks ! 0)), h', [])"
  using assms by (simp add: getSenderKey_def Let_def nth_opt_def)

lemma holds_sender_keyE:
  assumes "holds_sender_key h"
  obtains own k key where "participantKeys h (ownHandle h) = Some own" "keyId h = Some k"
    "length k = 4" "own k = Some key" "length key = 16"
    "previousKeyId h = None \<or> previousKeyId h = Some []
     \<or> (\<exists>p kp. previousKeyId h = Some p \<and> length p = 4 \<and> own p = Some kp \<and> length kp = 16)"
  using assms unfolding holds_sender_key_def
  by (auto split: option.splits)

lemma holds_sender_keyI:
  assumes "participantKeys h (ownHandle h) = Some own" "keyId h = Some k"
    "length k = 4" "own k = Some key" "length key = 16"
    "previousKeyId h = None \<or> previousKeyId h = Some []
     \<or> (\<exists>p kp. previousKeyId h = Some p \<and> length p = 4 \<and> own p = Some kp \<and> length kp = 16)"
  shows "holds_sender_key h"
  using assms unfolding holds_sender_key_def
  by (auto split: option.splits)

lemma getRandomValues_caches:
  "cache_pubCu25519 (snd (getRandomValues n w)) = cache_pubCu25519 w"
  "cache_pubEd25519 (snd (getRandomValues n w)) = cache_pubEd25519 w"
  by (simp_all add: getRandomValues_def)

lemma holds_sender_key_rotate:
  assumes "holds_sender_key h" "rotateKeyIfDue w h = (e, w1, h1)"
  shows "e = None \<and> holds_sender_key h1 \<and> ownHandle h1 = ownHandle h
       \<and> privCu25519 h1 = privCu25519 h \<and> privEd25519 h1 = privEd25519 h
       \<and> pubEd25519 h1 = pubEd25519 h \<and> cache_pubCu25519 w1 = cache_pubCu25519 w"
proof (cases "rotateKeyEvery h \<le> keyEncryptionCount h")
  case False
  with assms show ?thesis by (simp add: rotateKeyIfDue_def)
next
  case True
  from assms(1) obtain own k key where h: "participantKeys h (ownHandle h) = Some own"
    "keyId h = Some k" "length k = 4" "own k = Some key" "length key = 16"
    by (rule holds_sender_keyE)
  from h(3) have kne: "k \<noteq> []" by auto
  obtain dc where dc: "(case splitKeyId k of (dateStamp, counter) \<Rightarrow>
        if dateStampNow w \<noteq> dateStamp then (dateStampNow w, 0::nat)
        else (dateStamp, (counter + 1) AND 0xffff)) = dc" by simp
  obtain d c where dcp: "dc = (d, c)" by (cases dc)
  let ?k1 = "encodeKeyId d c"
  let ?new = "fst (getRandomValues SECRET_KEY_SIZE w)"
  have u: "updateSenderKey w h =
      (None, snd (getRandomValues SECRET_KEY_SIZE w),
       h\<lparr>previousKeyId := Some k, keyId := Some ?k1,
          participantKeys := (participantKeys h)(ownHandle h \<mapsto> own(?k1 \<mapsto> ?new)),
          keyEncryptionCount := 0\<rparr>)"
    using h kne dc dcp
    by (auto simp: updateSenderKey_def Let_def split: prod.splits if_splits)
  from assms(2) True u have r: "e = None" "w1 = snd (getRandomValues SECRET_KEY_SIZE w)"
    "h1 = h\<lparr>previousKeyId := Some k, keyId := Some ?k1,
          participantKeys := (participantKeys h)(ownHandle h \<mapsto> own(?k1 \<mapsto> ?new)),
          keyEncryptionCount := 0\<rparr>"
    by (simp_all add: rotateKeyIfDue_def)
  have "holds_sender_key h1"
  proof (rule holds_sender_keyI[where own = "own(?k1 \<mapsto> ?new)" and k = ?k1 and key = ?new])
    show "previousKeyId h1 = None \<or> previousKeyId h1 = Some []
       \<or> (\<exists>p kp. previousKeyId h1 = Some p \<and> length p = 4 \<and> (own(?k1 \<mapsto> ?new)) p = Some kp
            \<and> length kp = 16)"
      using h by (auto simp: r(3) length_getRandomValues)
  qed (simp_all add: r(3) length_encodeKeyId length_getRandomValues)
  with r show ?thesis by (simp add: getRandomValues_caches)
qed

lemma symmetricEncryptMessage_with_key:
  assumes "key \<noteq> []" "utf8_encode P plain = Some clear"
  shows "symmetricEncryptMessage P w plain (Some key) None =
     (Returned (AES_CTR_encrypt P clear key (fst (getRandomValues NONCE_SIZE w)), key,
                fst (getRandomValues NONCE_SIZE w)),
      snd (getRandomValues NONCE_SIZE w))"
  using assms by (simp add: symmetricEncryptMessage_def Let_def split: prod.splits)

lemma encryptTo_followup_result:
  assumes "rotateKeyIfDue w h = (None, w1, h1)" "participantKeys h1 (ownHandle h1) = Some own"
    "keyId h1 = Some kid" "own kid = Some key" "key \<noteq> []" "utf8_encode P plain = Some clear"
    "sentKeyId h1 = keyId h1"
  shows "encryptTo P w plain dest h =
     (Returned (signedMessage P h1
        [(char_of TLV_MESSAGE_TYPE, [char_of GROUP_FOLLOWUP]),
         (char_of TLV_NONCE, fst (getRandomValues NONCE_SIZE w1)),
         (char_of TLV_KEY_IDS, kid),
         (char_of TLV_PAYLOAD, AES_CTR_encrypt P clear key (fst (getRandomValues NONCE_SIZE w1)))]),
      snd (getRandomValues NONCE_SIZE w1),
      h1\<lparr>keyEncryptionCount := keyEncryptionCount h1 + 1\<rparr>, [])"
  using assms
  by (simp add: encryptTo_def str_of_null_def symmetricEncryptMessage_with_key
      assembleMessage_lean truthy_def)

lemma encryptTo_keyed_result:
  assumes "rotateKeyIfDue w h = (None, w1, h1)" "participantKeys h1 (ownHandle h1) = Some own"
    "keyId h1 = Some kid" "own kid = Some key" "key \<noteq> []" "utf8_encode P plain = Some clear"
    "sentKeyId h1 \<noteq> keyId h1"
    and "(case previousKeyId h1 of
            Some p \<Rightarrow> if p \<noteq> [] then ([Some key, own p], Some (kid @ p)) else ([Some key], Some kid)
          | None \<Rightarrow> ([Some key], Some kid)) = (ks, Some ids)"
    and "cache_pubCu25519 w1 dest = Some pk" "pk \<noteq> []"
    and "AES_CBC_encrypt P (concat (map str_of_undefined ks))
           (take KEY_SIZE (SHA256 P (scalarMult P (privCu25519 h1) pk)))
           (take IV_SIZE (SHA256 P (base64urldecode P dest @ fst (getRandomValues NONCE_SIZE w1)))) = ek"
    and "ek \<noteq> []"
  shows "encryptTo P w plain dest h =
     (Returned (signedMessage P h1
        [(char_of TLV_MESSAGE_TYPE, [char_of GROUP_KEYED]),
         (char_of TLV_NONCE, fst (getRandomValues NONCE_SIZE w1)),
         (char_of TLV_RECIPIENT, base64urldecode P dest), (char_of TLV_KEYS, ek),
         (char_of TLV_KEY_IDS, ids),
         (char_of TLV_PAYLOAD, AES_CTR_encrypt P clear key (fst (getRandomValues NONCE_SIZE w1)))]),
      snd (getRandomValues NONCE_SIZE w1),
      h1\<lparr>sentKeyId := keyId h1, keyEncryptionCount := keyEncryptionCount h1 + 1\<rparr>, [])"
proof -
  have ks: "ks \<noteq> []" using assms(8) by (auto split: option.splits if_splits)
  have ki: "(case previousKeyId h1 of
          Some p \<Rightarrow> if p \<noteq> [] then ([own (str_of_null (keyId h1)), own p],
                                      Some (str_of_null (keyId h1) @ p))
                    else ([own (str_of_null (keyId h1))], keyId h1)
        | None \<Rightarrow> ([own (str_of_null (keyId h1))], keyId h1)) = (ks, Some ids)"
    using assms(3,4,8) by (cases "previousKeyId h1") (auto simp: str_of_null_def)
  have ek: "encryptKeysFor P (snd (getRandomValues NONCE_SIZE w1)) h1 ks
              (fst (getRandomValues NONCE_SIZE w1)) dest = (Returned ek, [])"
    using assms(9-11) ks
    by (simp add: encryptKeysFor_def computeSymmetricKey_def Let_def getRandomValues_caches)
  show ?thesis
  proof (cases "previousKeyId h1")
    case None
    with assms(8) have "ks = [Some key]" "ids = kid" by simp_all
    with None assms(1-7,12) ek show ?thesis
      by (simp add: encryptTo_def symmetricEncryptMessage_with_key Let_def
          assembleMessage_keyed str_of_null_def)
  next
    case (Some p)
    show ?thesis
    proof (cases "p = []")
      case True
      with Some assms(8) have "ks = [Some key]" "ids = kid" by simp_all
      with Some True assms(1-7,12) ek show ?thesis
        by (simp add: encryptTo_def symmetricEncryptMessage_with_key Let_def
            assembleMessage_keyed str_of_null_def)
    next
      case False
      with Some assms(8) have "ks = [Some key, own p]" "ids = kid @ p" by simp_all
      with Some False assms(1-7,12) ek show ?thesis
        by (simp add: encryptTo_def symmetricEncryptMessage_with_key Let_def
            assembleMessage_keyed str_of_null_def)
    qed
  qed
qed

subsection \<open>The round trip\<close>

lemma aliceSent_followup:
  "encryptTo toy world0 ''world'' ''B'' aliceSent =
     (Returned followupMessage, world0, aliceSent\<lparr>keyEncryptionCount := 2\<rparr>, [])"
  using alice2_second
  by (simp add: aliceSent_def followupMessage_def signedMessage_def signMessage_def toy_fields)

lemma followupMessage_outcome:
  "decryptFrom toy world0 followupMessage ''A'' bob =
     (ReturnedFalse, bob, [LogKeyUnavailable ''A'' (Some ''abcd'')])"
  by (simp add: followupMessage_def parse_eval decrypt_eval example_eval)

lemma followupMessage_decrypted:
  "decryptFrom toy world0 followupMessage ''A'' bob1 =
     (Returned \<lparr>msg_sender = ''A'', msg_type = Some (Num GROUP_FOLLOWUP), msg_payload = ''world''\<rparr>,
      bob1, [])"
  by (simp add: followupMessage_def parse_eval decrypt_eval example_eval)

lemma afterRotation_alice2: "afterRotation world0 alice2 = alice2"
  by (simp add: afterRotation_def rotateKeyIfDue_not_due alice2_fields)

lemma sound_primitives_toy: "sound_primitives toy"
  by (simp add: sound_primitives_def toy_def)

lemma holds_sender_key_alice2: "holds_sender_key alice2"
  by (simp add: holds_sender_key_def alice2_fields)

lemma holds_sender_key_aliceSent: "holds_sender_key aliceSent"
  by (simp add: holds_sender_key_def aliceSent_def alice2_fields)

text \<open>
  Claim C1, as stated, fails. \<open>aliceSent\<close> holds a current sender key, and both parties
  hold the public keys of each other; she has sent her key in an earlier message, so the
  next message is a follow-up that carries no key. A receiver that has not cached her
  key, as \<open>bob\<close> who never saw the first message, gets \<open>false\<close> for it.
\<close>

theorem round_trip_counterexample:
  "holds_sender_key aliceSent
   \<and> cache_pubCu25519 world0 ''A'' = Some ''pa'' \<and> cache_pubEd25519 world0 ''A'' = Some ''ea''
   \<and> cache_pubCu25519 world0 ''B'' = Some ''pb'' \<and> cache_pubEd25519 world0 ''B'' = Some ''eb''
   \<and> encryptTo toy world0 ''world'' ''B'' aliceSent =
       (Returned followupMessage, world0, aliceSent\<lparr>keyEncryptionCount := 2\<rparr>, [])
   \<and> decryptFrom toy world0 followupMessage ''A'' bob =
       (ReturnedFalse, bob, [LogKeyUnavailable ''A'' (Some ''abcd'')])"
  using holds_sender_key_aliceSent aliceSent_followup followupMessage_outcome
  by (simp add: world0_def)

text \<open>
  Claim C1, amended. Let the primitives be sound (decryption inverts encryption, the
  key wrapping keeps lengths, signatures verify and fit a record), the plain text be
  encodable and its cipher text fit a record, the destination be the receiver's handle
  and a base64 string, both parties hold the public keys of each other and derive the
  same shared secret, and the sender hold a current sender key. Let moreover the receiver
  hold the sender's current key when the message is a follow-up, and hold no other key
  than the sender under the sender's key ids when it is keyed. Then \<open>encryptTo\<close> returns
  a message, and \<open>decryptFrom\<close> on it returns the sender's handle, the message type
  (follow-up if the current key has been sent, keyed otherwise) and the plain text.
\<close>

theorem round_trip:
  assumes prims: "sound_primitives P"
    and sig: "\<forall>m. sign_detached_verify P m
                 (sign_detached P m (privEd25519 hA @ pubEd25519 hA)) (pubEd25519 hA)"
    and enc: "utf8_encode P plain = Some clear" and dec: "utf8_decode P clear = Some plain"
    and size: "\<forall>k n. length (AES_CTR_encrypt P clear k n) < 65536"
    and dest: "ownHandle hB = dest" "length (base64urldecode P dest) < 65536"
      "base64urlencode P (base64urldecode P dest) = dest"
    and pkB: "cache_pubCu25519 wA dest = Some pkB" "pkB \<noteq> []"
    and pkA: "cache_pubCu25519 wB (ownHandle hA) = Some pkA" "pkA \<noteq> []"
    and edA: "cache_pubEd25519 wB (ownHandle hA) = Some (pubEd25519 hA)"
    and dh: "scalarMult P (privCu25519 hA) pkB = scalarMult P (privCu25519 hB) pkA"
    and wf: "holds_sender_key hA"
    and followup: "sentKeyId (afterRotation wA hA) = keyId (afterRotation wA hA) \<longrightarrow>
        (\<forall>k. keyId (afterRotation wA hA) = Some k \<longrightarrow>
           boundKey hB (ownHandle hA) k = boundKey (afterRotation wA hA) (ownHandle hA) k)"
    and agree: "sentKeyId (afterRotation wA hA) \<noteq> keyId (afterRotation wA hA) \<longrightarrow>
        (\<forall>k v. boundKey hB (ownHandle hA) k = Some v \<and> v \<noteq> [] \<longrightarrow>
           boundKey (afterRotation wA hA) (ownHandle hA) k = Some v)"
  shows "\<exists>msg wA' hA' hB'.
           encryptTo P wA plain dest hA = (Returned msg, wA', hA', [])
         \<and> decryptFrom P wB msg (ownHandle hA) hB =
             (Returned \<lparr>msg_sender = ownHandle hA,
                       msg_type = Some (Num (if sentKeyId (afterRotation wA hA) = keyId (afterRotation wA hA)
                                             then GROUP_FOLLOWUP else GROUP_KEYED)),
                       msg_payload = plain\<rparr>,
              hB', [])"
proof -
  let ?sender = "ownHandle hA"
  from prims have ctr: "\<forall>x k n. AES_CTR_decrypt P (AES_CTR_encrypt P x k n) k n = x"
    and cbc: "\<forall>x k iv. AES_CBC_decrypt P (AES_CBC_encrypt P x k iv) k iv = x"
    and cbclen: "\<And>x k iv. length (AES_CBC_encrypt P x k iv) = length x"
    and siglen: "\<And>m k. length (sign_detached P m k) < 65536"
    by (simp_all add: sound_primitives_def)
  obtain e w1 h1 where rot0: "rotateKeyIfDue wA hA = (e, w1, h1)"
    by (cases "rotateKeyIfDue wA hA") auto
  from holds_sender_key_rotate[OF wf rot0] have e: "e = None" and wf1: "holds_sender_key h1"
    and same: "ownHandle h1 = ?sender" "privCu25519 h1 = privCu25519 hA"
      "privEd25519 h1 = privEd25519 hA" "pubEd25519 h1 = pubEd25519 hA"
    and cache1: "cache_pubCu25519 w1 = cache_pubCu25519 wA"
    by simp_all
  note rot = rot0[unfolded e]
  have ar: "afterRotation wA hA = h1" by (simp add: afterRotation_def rot)
  from wf1 obtain own kid key where h1: "participantKeys h1 (ownHandle h1) = Some own"
    "keyId h1 = Some kid" "length kid = 4" "own kid = Some key" "length key = 16"
    and prev: "previousKeyId h1 = None \<or> previousKeyId h1 = Some []
     \<or> (\<exists>p kp. previousKeyId h1 = Some p \<and> length p = 4 \<and> own p = Some kp \<and> length kp = 16)"
    by (rule holds_sender_keyE)
  from h1(5) have kne: "key \<noteq> []" by auto
  have bound1: "boundKey h1 ?sender k = own k" for k
    using h1(1) same(1) by (simp add: boundKey_def)
  let ?nonce = "fst (getRandomValues NONCE_SIZE w1)"
  let ?w2 = "snd (getRandomValues NONCE_SIZE w1)"
  let ?cipher = "AES_CTR_encrypt P clear key ?nonce"
  have nlen: "length ?nonce = 12" by (rule length_getRandomValues)
  have clen: "length ?cipher < 65536" using size by simp
  have verified: "verifyMessage P (Some content)
        (Some (signMessage P content (privEd25519 h1) (pubEd25519 h1)))
        (cache_pubEd25519 wB ?sender) = Returned True" for content
    using sig by (simp add: verifyMessage_def signMessage_def same edA)
  show ?thesis
  proof (cases "sentKeyId h1 = keyId h1")
    case True
    let ?rs = "[(char_of TLV_MESSAGE_TYPE, [char_of GROUP_FOLLOWUP]), (char_of TLV_NONCE, ?nonce),
                (char_of TLV_KEY_IDS, kid), (char_of TLV_PAYLOAD, ?cipher)]"
    let ?sg = "signMessage P (encodeRecords ?rs) (privEd25519 h1) (pubEd25519 h1)"
    let ?pm = "\<lparr>recipients = [], keys = [], keyIds = [kid], protocolVersion = Num 0,
            signature = Some ?sg, signedContent = Some (encodeRecords ?rs),
            type = Some (Num GROUP_FOLLOWUP), nonce = Some ?nonce, payload = Some ?cipher,
            undefined_property = None\<rparr>"
    have encrypted: "encryptTo P wA plain dest hA =
        (Returned (signedMessage P h1 ?rs), ?w2,
         h1\<lparr>keyEncryptionCount := keyEncryptionCount h1 + 1\<rparr>, [])"
      by (rule encryptTo_followup_result[OF rot h1(1,2,4) kne enc True])
    have parsed: "parseMessageContent P (signedMessage P h1 ?rs) = (Returned ?pm, [])"
      by (rule parse_signedMessage_followup) (simp_all add: nlen h1 clen signMessage_def siglen)
    from followup True h1(2) have "boundKey hB ?sender kid = Some key"
      by (simp add: ar bound1 h1(4))
    then obtain cB where cB: "participantKeys hB ?sender = Some cB" "cB kid = Some key"
      by (auto simp: boundKey_def split: option.splits)
    have got: "getSenderKey P wB ?pm ?sender hB = (Returned (Some key), hB, [])"
      by (rule getSenderKey_cached[OF _ _ cB kne]) simp_all
    have payload: "decryptPayload P ?pm ?sender (Some key) =
        (Returned \<lparr>msg_sender = ?sender, msg_type = type ?pm, msg_payload = plain\<rparr>, [])"
      by (rule decryptPayload_inverse[OF ctr dec nlen]) simp_all
    have "decryptFrom P wB (signedMessage P h1 ?rs) ?sender hB =
        (Returned \<lparr>msg_sender = ?sender, msg_type = type ?pm, msg_payload = plain\<rparr>, hB, [])"
      by (rule decryptFrom_parsed[OF parsed _ _ got payload]) (simp_all add: verified)
    with encrypted True show ?thesis by (auto simp: ar)
  next
    case False
    obtain cB where cB: "cB = (case participantKeys hB ?sender of None \<Rightarrow> Map.empty | Some c \<Rightarrow> c)"
      by simp
    have agreed: "\<forall>v. cB k = Some v \<longrightarrow> v \<noteq> [] \<longrightarrow> own k = Some v" for k
    proof (intro allI impI)
      fix v assume v: "cB k = Some v" "v \<noteq> []"
      then have "boundKey hB ?sender k = Some v"
        by (cases "participantKeys hB ?sender") (simp_all add: cB boundKey_def)
      with agree False v(2) have "boundKey h1 ?sender k = Some v" unfolding ar by blast
      then show "own k = Some v" by (simp add: bound1)
    qed
    have computed: "computeSymmetricKey P wB hB ?sender
          = (Returned (SHA256 P (scalarMult P (privCu25519 h1) pkB)), [])"
      using pkA dh by (simp add: computeSymmetricKey_def Let_def same)
    have keyed_case:
      "\<exists>msg wA' hA' hB'.
           encryptTo P wA plain dest hA = (Returned msg, wA', hA', [])
         \<and> decryptFrom P wB msg ?sender hB =
             (Returned \<lparr>msg_sender = ?sender, msg_type = Some (Num GROUP_KEYED), msg_payload = plain\<rparr>,
              hB', [])"
      if ki: "(case previousKeyId h1 of
            Some p \<Rightarrow> if p \<noteq> [] then ([Some key, own p], Some (kid @ p)) else ([Some key], Some kid)
          | None \<Rightarrow> ([Some key], Some kid)) = (ks, Some ids)"
        and ck: "concat (map str_of_undefined ks) = ck" "length ck mod 16 = 0" "ck \<noteq> []"
          "length ck < 65536" "length ids < 65536"
        and sp: "splitKeys ck = key # dks" "splitKeyIds ids = kids"
        and cached: "cacheSenderKeys kids (key # dks) 0 cB = (True, c')"
      for ks ids ck dks kids c'
    proof -
      let ?ek = "AES_CBC_encrypt P ck (take KEY_SIZE (SHA256 P (scalarMult P (privCu25519 h1) pkB)))
           (take IV_SIZE (SHA256 P (base64urldecode P dest @ ?nonce)))"
      let ?rs = "[(char_of TLV_MESSAGE_TYPE, [char_of GROUP_KEYED]), (char_of TLV_NONCE, ?nonce),
                  (char_of TLV_RECIPIENT, base64urldecode P dest), (char_of TLV_KEYS, ?ek),
                  (char_of TLV_KEY_IDS, ids), (char_of TLV_PAYLOAD, ?cipher)]"
      let ?sg = "signMessage P (encodeRecords ?rs) (privEd25519 h1) (pubEd25519 h1)"
      let ?pm = "\<lparr>recipients = [base64urlencode P (base64urldecode P dest)], keys = [?ek],
            keyIds = splitKeyIds ids, protocolVersion = Num 0,
            signature = Some ?sg, signedContent = Some (encodeRecords ?rs),
            type = Some (Num GROUP_KEYED), nonce = Some ?nonce, payload = Some ?cipher,
            undefined_property = None\<rparr>"
      have eklen: "length ?ek = length ck" by (rule cbclen)
      with ck have ekne: "?ek \<noteq> []" by auto
      have encrypted: "encryptTo P wA plain dest hA =
          (Returned (signedMessage P h1 ?rs), ?w2,
           h1\<lparr>sentKeyId := keyId h1, keyEncryptionCount := keyEncryptionCount h1 + 1\<rparr>, [])"
        by (rule encryptTo_keyed_result[OF rot h1(1,2,4) kne enc False ki _ pkB(2) _ ekne])
           (simp_all add: cache1 pkB ck)
      have parsed: "parseMessageContent P (signedMessage P h1 ?rs) = (Returned ?pm, [])"
        by (rule parse_signedMessage_keyed)
           (simp_all add: nlen clen signMessage_def siglen dest eklen ck)
      have other: "(if ?sender = ownHandle hB then nth_opt (recipients ?pm) 0 else Some ?sender)
                     = Some ?sender"
        using dest by (simp add: nth_opt_def)
      have rcv: "(if ?sender = ownHandle hB then Some ?sender else Some (ownHandle hB)) = Some dest"
        using dest by simp
      have unwrapped: "decryptKeysFor P wB hB ?ek (Some ?nonce) (Some ?sender)
            (?sender = ownHandle hB) = (Returned (splitKeys ck), [])"
        by (rule decryptKeysFor_inverse[OF cbc computed rcv ck(2)])
      have unwrapped': "decryptKeysFor P wB hB ?ek (nonce ?pm)
            (if ?sender = ownHandle hB then nth_opt (recipients ?pm) 0 else Some ?sender)
            (?sender = ownHandle hB) = (Returned (key # dks), [])"
        unfolding other using unwrapped sp(1) by simp
      have cached': "cacheSenderKeys (keyIds ?pm) (key # dks) 0
           (case participantKeys hB ?sender of None \<Rightarrow> Map.empty | Some c \<Rightarrow> c) = (True, c')"
        using cached sp(2) by (simp add: cB)
      have "\<exists>h'. getSenderKey P wB ?pm ?sender hB = (Returned (Some ((key # dks) ! 0)), h', [])"
        by (rule getSenderKey_unwrapped[OF _ unwrapped' cached']) simp_all
      then obtain hB' where got: "getSenderKey P wB ?pm ?sender hB = (Returned (Some key), hB', [])"
        by auto
      have payload: "decryptPayload P ?pm ?sender (Some key) =
          (Returned \<lparr>msg_sender = ?sender, msg_type = type ?pm, msg_payload = plain\<rparr>, [])"
        by (rule decryptPayload_inverse[OF ctr dec nlen]) simp_all
      have "decryptFrom P wB (signedMessage P h1 ?rs) ?sender hB =
          (Returned \<lparr>msg_sender = ?sender, msg_type = type ?pm, msg_payload = plain\<rparr>, hB', [])"
        by (rule decryptFrom_parsed[OF parsed _ _ got payload]) (simp_all add: verified)
      with encrypted show ?thesis by auto
    qed
    have single: "(\<exists>msg wA' hA' hB'.
           encryptTo P wA plain dest hA = (Returned msg, wA', hA', [])
         \<and> decryptFrom P wB msg ?sender hB =
             (Returned \<lparr>msg_sender = ?sender, msg_type = Some (Num GROUP_KEYED), msg_payload = plain\<rparr>,
              hB', []))"
      if "previousKeyId h1 = None \<or> previousKeyId h1 = Some []"
    proof (rule keyed_case[where ks = "[Some key]" and ids = kid and ck = key and dks = "[]"
          and kids = "[kid]" and c' = "cB(kid \<mapsto> key)"])
      show "cacheSenderKeys [kid] [key] 0 cB = (True, cB(kid \<mapsto> key))"
        by (rule cacheSenderKeys_one) (use agreed[of kid] h1(4) in auto)
    qed (use that h1 in \<open>auto simp: str_of_undefined_def splitKeys_one splitKeyIds_one\<close>)
    from prev show ?thesis
    proof (elim disjE exE conjE)
      assume "previousKeyId h1 = None"
      with single False show ?thesis by (simp add: ar)
    next
      assume "previousKeyId h1 = Some []"
      with single False show ?thesis by (simp add: ar)
    next
      fix p kp
      assume p: "previousKeyId h1 = Some p" "length p = 4" "own p = Some kp" "length kp = 16"
      have "\<exists>msg wA' hA' hB'.
           encryptTo P wA plain dest hA = (Returned msg, wA', hA', [])
         \<and> decryptFrom P wB msg ?sender hB =
             (Returned \<lparr>msg_sender = ?sender, msg_type = Some (Num GROUP_KEYED), msg_payload = plain\<rparr>,
              hB', [])"
      proof (rule keyed_case[where ks = "[Some key, Some kp]" and ids = "kid @ p" and ck = "key @ kp"
            and dks = "[kp]" and kids = "[kid, p]" and c' = "cB(kid \<mapsto> key, p \<mapsto> kp)"])
        show "cacheSenderKeys [kid, p] [key, kp] 0 cB = (True, cB(kid \<mapsto> key, p \<mapsto> kp))"
          by (rule cacheSenderKeys_two) (use agreed[of kid] agreed[of p] h1(4) p(3) in auto)
      qed (use p h1 in \<open>auto simp: str_of_undefined_def splitKeys_two splitKeyIds_two\<close>)
      with False show ?thesis by (simp add: ar)
    qed
  qed
qed


theorem round_trip_witness:
  "sound_primitives toy \<and> holds_sender_key alice2
   \<and> sentKeyId (afterRotation world0 alice2) \<noteq> keyId (afterRotation world0 alice2)
   \<and> boundKey bob ''A'' ''abcd'' = None
   \<and> (\<exists>msg wA' hA' hB'.
         encryptTo toy world0 ''hello'' ''B'' alice2 = (Returned msg, wA', hA', [])
       \<and> decryptFrom toy world0 msg ''A'' bob =
           (Returned \<lparr>msg_sender = ''A'', msg_type = Some (Num GROUP_KEYED), msg_payload = ''hello''\<rparr>,
            hB', []))"
proof -
  have own: "ownHandle alice2 = ''A''" "ownHandle bob = ''B''"
    by (simp_all add: alice2_fields bob_def ProtocolHandler_def or_default_def Let_def)
  have fields: "pubEd25519 alice2 = ''ea''" "sentKeyId alice2 = None" "keyId alice2 = Some ''abcd''"
    by (simp_all add: alice2_fields)
  have unsent: "sentKeyId (afterRotation world0 alice2) \<noteq> keyId (afterRotation world0 alice2)"
    by (simp add: afterRotation_alice2 fields)
  have nokey: "boundKey bob ''A'' k = None" for k
    by (simp add: boundKey_def bob_def ProtocolHandler_def or_default_def Let_def)
  have "\<exists>msg wA' hA' hB'.
           encryptTo toy world0 ''hello'' ''B'' alice2 = (Returned msg, wA', hA', [])
         \<and> decryptFrom toy world0 msg (ownHandle alice2) bob =
             (Returned \<lparr>msg_sender = ownHandle alice2,
                       msg_type = Some (Num (if sentKeyId (afterRotation world0 alice2)
                                                = keyId (afterRotation world0 alice2)
                                             then GROUP_FOLLOWUP else GROUP_KEYED)),
                       msg_payload = ''hello''\<rparr>,
              hB', [])"
  proof (rule round_trip[where clear = "''hello''" and pkB = "''pb''" and pkA = "''pa''"])
    show "sound_primitives toy" by (rule sound_primitives_toy)
    show "holds_sender_key alice2" by (rule holds_sender_key_alice2)
  qed (simp_all add: toy_fields own world0_fields afterRotation_alice2 nokey fields)
  with unsent show ?thesis
    by (simp add: own sound_primitives_toy holds_sender_key_alice2 nokey)
qed

end
